theory Spec2Isabelle
  imports Main
begin

section \<open>netopeer2-server: session lifecycle and datastore locks (src/server/main.c)\<close>

text \<open>
  A shallow embedding of the control part of \<^verbatim>\<open>main.c\<close>: the signal handler, the
  datastore-lock cleanup, the per-session sysrepo binding (\<^verbatim>\<open>connect_ds\<close>, \<^verbatim>\<open>free_ds\<close>),
  the processing thread (\<^verbatim>\<open>process_loop\<close>) and the accept loop with the restart cycle of
  \<^verbatim>\<open>main\<close>.

  Pointers are addresses (\<open>nat\<close>) wrapped in \<open>option\<close>: \<open>None\<close> is \<^verbatim>\<open>NULL\<close>.
  The global variables of the file are the fields of one state record. Objects that live
  behind pointers (NETCONF sessions, \<^verbatim>\<open>struct np2_sessions\<close>) are kept in explicit stores.
  Every call of a library function is recorded in a trace, in program order, so that
  statements about the order of calls can be made. Results that come from outside
  (return codes of library calls, delivered signals) are inputs of the model.
\<close>

subsection \<open>Constants\<close>

definition EXIT_SUCCESS :: int where "EXIT_SUCCESS = 0"
definition EXIT_FAILURE :: int where "EXIT_FAILURE = 1"
definition SR_ERR_OK :: int where "SR_ERR_OK = 0"
definition SR_SESS_DEFAULT :: int where "SR_SESS_DEFAULT = 0"

datatype sr_datastore_t = SR_DS_STARTUP | SR_DS_RUNNING | SR_DS_CANDIDATE

text \<open>\<^verbatim>\<open>enum LOOPCTRL\<close>, the value of the global \<^verbatim>\<open>control\<close>.\<close>

datatype LOOPCTRL = LOOP_CONTINUE | LOOP_RESTART | LOOP_STOP

text \<open>
  The signals the handler distinguishes; \<open>SIGOTHER\<close> stands for every signal number that
  reaches the \<^verbatim>\<open>default\<close> label of its \<^verbatim>\<open>switch\<close>.
\<close>

datatype signal = SIGINT | SIGTERM | SIGQUIT | SIGABRT | SIGHUP | SIGUSR1 | SIGOTHER

subsection \<open>Data\<close>

text \<open>\<^verbatim>\<open>struct np2_sessions\<close>: the sysrepo session bound to one NETCONF session.\<close>

record np2_sessions =
  ncs :: "nat option"
  srs :: "nat option"
  ds :: sr_datastore_t
  opts :: int

text \<open>\<^verbatim>\<open>struct np2srv_dslock\<close>: one slot per datastore, holding the locking session or \<^verbatim>\<open>NULL\<close>.\<close>

record np2srv_dslock =
  running :: "nat option"
  startup :: "nat option"
  candidate :: "nat option"

text \<open>
  What the server sees of a libnetconf2 session object: whether it is still running and
  the user data pointer set with \<^verbatim>\<open>nc_session_set_data\<close>.
\<close>

datatype nc_status = NC_STATUS_RUNNING | NC_STATUS_INVALID

record nc_session =
  status :: nc_status
  data :: "nat option"

text \<open>The library calls, as they appear in the trace.\<close>

datatype event =
    Sr_session_stop nat
  | Rwlock_wrlock
  | Rwlock_unlock
  | Free nat
  | Calloc "nat option"
  | Sr_session_start_user int
  | Nc_session_set_data nat nat
  | Nc_session_free "nat option"
  | Nc_accept int
  | Nc_ps_add_session "nat option"
  | Nc_ps_session_count nat
  | Nc_ps_poll int
  | Nc_ps_clear int
  | Nc_ps_accept_ssh_channel
  | Nc_thread_destroy
  | Usleep nat
  | Server_init int
  | Pthread_create
  | Pthread_join
  | Sr_disconnect
  | Nc_ps_free
  | Nc_server_destroy
  | Ly_ctx_destroy

text \<open>
  The globals: \<^verbatim>\<open>control\<close>, the handler's \<^verbatim>\<open>static int quit\<close>, \<^verbatim>\<open>dslock\<close>, the sessions
  of the poll structure \<^verbatim>\<open>np2srv.nc_ps\<close>, \<^verbatim>\<open>np2srv.sr_sess.srs\<close>; the two stores; the trace.
\<close>

record np2_state =
  control :: LOOPCTRL
  quit :: int
  dslock :: np2srv_dslock
  nc_ps :: "nat list"
  sr_sess_srs :: "nat option"
  nc_sessions :: "nat \<Rightarrow> nc_session option"
  np2_heap :: "nat \<Rightarrow> np2_sessions option"
  trace :: "event list"

definition emit :: "event \<Rightarrow> np2_state \<Rightarrow> np2_state" where
  "emit e st = st\<lparr>trace := trace st @ [e]\<rparr>"

subsection \<open>The signal handler\<close>

text \<open>
  \<^verbatim>\<open>signal_handler\<close>: \<open>Inl c\<close> is \<^verbatim>\<open>exit(c)\<close>, the process is gone and nothing else
  runs; \<open>Inr st\<close> is a return to the interrupted code.
\<close>

definition signal_handler :: "signal \<Rightarrow> np2_state \<Rightarrow> int + np2_state" where
  "signal_handler sig st =
     (if sig = SIGINT \<or> sig = SIGTERM \<or> sig = SIGQUIT \<or> sig = SIGABRT then
        (if quit st = 0 then Inr (st\<lparr>quit := 1, control := LOOP_STOP\<rparr>)
         else Inl EXIT_FAILURE)
      else if sig = SIGHUP \<or> sig = SIGUSR1 then Inr (st\<lparr>control := LOOP_RESTART\<rparr>)
      else Inl EXIT_FAILURE)"

text \<open>
  Signals are asynchronous. \<^verbatim>\<open>control\<close> is read only in the loop conditions and at the
  end of \<^verbatim>\<open>main\<close>, so the model delivers the signals that arrived since the last read
  just before the next one. Delivery stops at the first \<^verbatim>\<open>exit\<close>.
\<close>

fun deliver :: "signal list \<Rightarrow> np2_state \<Rightarrow> int + np2_state" where
  "deliver [] st = Inr st"
| "deliver (sig # sigs) st =
     (case signal_handler sig st of Inl c \<Rightarrow> Inl c | Inr st' \<Rightarrow> deliver sigs st')"

subsection \<open>Datastore locks and the session binding\<close>

text \<open>\<^verbatim>\<open>np2srv_clean_dslock\<close>: the three comparisons run under the write lock.\<close>

definition np2srv_clean_dslock :: "nat option \<Rightarrow> np2_state \<Rightarrow> np2_state" where
  "np2srv_clean_dslock p st =
     (let st1 = emit Rwlock_wrlock st;
          d1 = (if running (dslock st1) = p then (dslock st1)\<lparr>running := None\<rparr> else dslock st1);
          d2 = (if startup d1 = p then d1\<lparr>startup := None\<rparr> else d1);
          d3 = (if candidate d2 = p then d2\<lparr>candidate := None\<rparr> else d2)
      in emit Rwlock_unlock (st1\<lparr>dslock := d3\<rparr>))"

text \<open>
  \<^verbatim>\<open>free_ds\<close>. The result is \<open>None\<close> when the pointer is not \<^verbatim>\<open>NULL\<close> and does not
  point to an allocated \<^verbatim>\<open>struct np2_sessions\<close>: the C code would read freed memory.
\<close>

definition free_ds :: "nat option \<Rightarrow> np2_state \<Rightarrow> np2_state option" where
  "free_ds ptr st =
     (case ptr of
        None \<Rightarrow> Some st
      | Some a \<Rightarrow>
          (case np2_heap st a of
             None \<Rightarrow> None
           | Some s \<Rightarrow>
               let st1 = (case srs s of Some h \<Rightarrow> emit (Sr_session_stop h) st | None \<Rightarrow> st);
                   st2 = np2srv_clean_dslock (ncs s) st1;
                   st3 = emit (Free a) st2
               in Some (st3\<lparr>np2_heap := (np2_heap st3)(a := None)\<rparr>)))"

subsection \<open>libnetconf2 calls used by the loops\<close>

text \<open>
  Modelled from the spec: \<^verbatim>\<open>nc_session_free\<close> is the transport layer's \<open>close(session)\<close>
  (section 6), called with \<^verbatim>\<open>free_ds\<close> as the release callback of the session binding
  (section 4.2): the callback runs on the session's data pointer, then the session object
  is gone. A \<^verbatim>\<open>NULL\<close> session is ignored. \<open>None\<close>: the pointer does not point to a session.
\<close>

definition nc_session_free :: "nat option \<Rightarrow> np2_state \<Rightarrow> np2_state option" where
  "nc_session_free p st =
     (let st0 = emit (Nc_session_free p) st in
      case p of
        None \<Rightarrow> Some st0
      | Some a \<Rightarrow>
          (case nc_sessions st0 a of
             None \<Rightarrow> None
           | Some s \<Rightarrow>
               (case free_ds (data s) st0 of
                  None \<Rightarrow> None
                | Some st1 \<Rightarrow> Some (st1\<lparr>nc_sessions := (nc_sessions st1)(a := None)\<rparr>))))"

text \<open>
  Modelled from the spec: \<^verbatim>\<open>nc_ps_add_session\<close> is \<open>register(sessionSet, session)\<close>
  (section 6); a \<^verbatim>\<open>NULL\<close> session is refused.
\<close>

definition nc_ps_add_session :: "nat option \<Rightarrow> np2_state \<Rightarrow> np2_state" where
  "nc_ps_add_session p st =
     (let st0 = emit (Nc_ps_add_session p) st in
      case p of None \<Rightarrow> st0 | Some a \<Rightarrow> st0\<lparr>nc_ps := nc_ps st0 @ [a]\<rparr>)"

text \<open>
  Modelled from the spec: \<^verbatim>\<open>nc_ps_clear(ps, all, free_ds)\<close> removes sessions from the
  SessionSet and closes each removed session with the teardown callback (section 4.3):
  with \<open>all \<noteq> 0\<close> every session, otherwise the sessions that are no longer running.
\<close>

fun free_sessions :: "nat list \<Rightarrow> np2_state \<Rightarrow> np2_state option" where
  "free_sessions [] st = Some st"
| "free_sessions (a # as) st =
     (case nc_session_free (Some a) st of
        None \<Rightarrow> None
      | Some st' \<Rightarrow> free_sessions as st')"

fun clear_invalid :: "nat list \<Rightarrow> np2_state \<Rightarrow> np2_state option" where
  "clear_invalid [] st = Some st"
| "clear_invalid (a # as) st =
     (case nc_sessions st a of
        None \<Rightarrow> None
      | Some s \<Rightarrow>
          if status s \<noteq> NC_STATUS_RUNNING then
            (case nc_session_free (Some a) (st\<lparr>nc_ps := remove1 a (nc_ps st)\<rparr>) of
               None \<Rightarrow> None
             | Some st' \<Rightarrow> clear_invalid as st')
          else clear_invalid as st)"

definition nc_ps_clear :: "int \<Rightarrow> np2_state \<Rightarrow> np2_state option" where
  "nc_ps_clear all st =
     (let st0 = emit (Nc_ps_clear all) st in
      if all \<noteq> 0 then
        (case free_sessions (nc_ps st0) st0 of
           None \<Rightarrow> None
         | Some st1 \<Rightarrow> Some (st1\<lparr>nc_ps := []\<rparr>))
      else clear_invalid (nc_ps st0) st0)"

definition new_session :: nc_session where
  "new_session = \<lparr>status = NC_STATUS_RUNNING, data = None\<rparr>"

subsection \<open>Binding a session: \<^verbatim>\<open>connect_ds\<close>\<close>

text \<open>
  What the environment answers inside \<^verbatim>\<open>connect_ds\<close>: the pointer returned by
  \<^verbatim>\<open>calloc\<close>, the return code of \<^verbatim>\<open>sr_session_start_user\<close> and the handle it leaves
  in \<^verbatim>\<open>s->srs\<close>.
\<close>

record connect_in =
  c_calloc :: "nat option"
  c_rc :: int
  c_srs :: "nat option"

text \<open>
  \<^verbatim>\<open>connect_ds\<close> returns its exit code and the new state; \<open>None\<close> when
  \<^verbatim>\<open>nc_session_set_data\<close> is given a pointer that is not a session. The binding \<open>s\<close> is
  stored with the fields it has when \<^verbatim>\<open>sr_session_start_user\<close> has returned: the three
  assignments, and the handle the call wrote to \<^verbatim>\<open>s->srs\<close> (\<^verbatim>\<open>NULL\<close> from \<^verbatim>\<open>calloc\<close> if
  it wrote none). \<^verbatim>\<open>EMEM\<close> and \<^verbatim>\<open>ERR\<close> only log.
\<close>

definition connect_ds :: "nat option \<Rightarrow> connect_in \<Rightarrow> np2_state \<Rightarrow> (int \<times> np2_state) option" where
  "connect_ds p ci st =
     (case p of
        None \<Rightarrow> Some (EXIT_FAILURE, st)
      | Some a \<Rightarrow>
          let st0 = emit (Calloc (c_calloc ci)) st in
          (case c_calloc ci of
             None \<Rightarrow> Some (EXIT_FAILURE, st0)
           | Some b \<Rightarrow>
               let s = \<lparr>ncs = Some a, srs = c_srs ci, ds = SR_DS_RUNNING, opts = SR_SESS_DEFAULT\<rparr>;
                   st1 = emit (Sr_session_start_user (c_rc ci))
                           (st0\<lparr>np2_heap := (np2_heap st0)(b := Some s)\<rparr>)
               in if c_rc ci \<noteq> SR_ERR_OK then
                    let st2 = (case srs s of Some h \<Rightarrow> emit (Sr_session_stop h) st1 | None \<Rightarrow> st1);
                        st3 = emit (Free b) st2
                    in Some (EXIT_FAILURE, st3\<lparr>np2_heap := (np2_heap st3)(b := None)\<rparr>)
                  else
                    (case nc_sessions st1 a of
                       None \<Rightarrow> None
                     | Some x \<Rightarrow>
                         let st2 = emit (Nc_session_set_data a b) st1
                         in Some (EXIT_SUCCESS,
                              st2\<lparr>nc_sessions := (nc_sessions st2)(a := Some (x\<lparr>data := Some b\<rparr>))\<rparr>))))"

subsection \<open>The loops\<close>

text \<open>
  How a loop can end: \<open>Exit c\<close>, the handler called \<^verbatim>\<open>exit(c)\<close>; \<open>Fault\<close>, a
  pointer that points to nothing was used; \<open>Done st\<close>, the loop was left and the code after
  it has run; \<open>More st\<close>, the inputs are used up and the loop is still running.
\<close>

datatype outcome = Exit int | Fault | Done np2_state | More np2_state

text \<open>
  One input per evaluation of the loop condition of \<^verbatim>\<open>process_loop\<close>: the signals
  delivered before it and, for the body, the result of \<^verbatim>\<open>nc_ps_poll\<close>, the sessions
  the poll found terminated, and the session pointer that \<^verbatim>\<open>nc_ps_accept_ssh_channel\<close>
  writes through its second argument (\<open>None\<close>: the call fails and writes nothing).
\<close>

record poll_in =
  p_sigs :: "signal list"
  p_rc :: int
  p_invalid :: "nat list"
  p_chan :: "nat option"

definition nc_ps_poll :: "poll_in \<Rightarrow> np2_state \<Rightarrow> np2_state" where
  "nc_ps_poll i st =
     emit (Nc_ps_poll (p_rc i))
       (st\<lparr>nc_sessions := (\<lambda>a. if a \<in> set (p_invalid i)
                                 then map_option (\<lambda>s. s\<lparr>status := NC_STATUS_INVALID\<rparr>) (nc_sessions st a)
                                 else nc_sessions st a)\<rparr>)"

text \<open>
  \<^verbatim>\<open>nc_ps_accept_ssh_channel(np2srv.nc_ps, &ncs)\<close>: \<open>l\<close> is the value of the local
  variable \<^verbatim>\<open>ncs\<close> of \<^verbatim>\<open>process_loop\<close> before the call, the first component of the
  result its value after the call. The return value of the call is not looked at.
\<close>

definition nc_ps_accept_ssh_channel ::
    "poll_in \<Rightarrow> nat option \<Rightarrow> np2_state \<Rightarrow> nat option \<times> np2_state" where
  "nc_ps_accept_ssh_channel i l st =
     (let st0 = emit Nc_ps_accept_ssh_channel st in
      case p_chan i of
        None \<Rightarrow> (l, st0)
      | Some a \<Rightarrow> (Some a, st0\<lparr>nc_sessions := (nc_sessions st0)(a := Some new_session)\<rparr>))"

text \<open>
  The body of the \<^verbatim>\<open>while\<close> loop of \<^verbatim>\<open>process_loop\<close>. The local \<^verbatim>\<open>ncs\<close> is declared
  without an initial value and is written by \<^verbatim>\<open>nc_ps_accept_ssh_channel\<close> only, so its
  value is carried from one iteration to the next: the body takes it as \<open>l\<close> and returns
  it with the new state.
\<close>

definition process_body ::
    "poll_in \<Rightarrow> nat option \<Rightarrow> np2_state \<Rightarrow> (nat option \<times> np2_state) option" where
  "process_body i l st =
     (let st0 = emit (Nc_ps_session_count (length (nc_ps st))) st in
      if length (nc_ps st0) \<noteq> 0 then
        let st1 = nc_ps_poll i st0 in
        if p_rc i = - 1 \<or> p_rc i = 3 then
          (case nc_ps_clear 0 st1 of
             None \<Rightarrow> None
           | Some st2 \<Rightarrow> Some (l, emit (Usleep 250) st2))
        else if p_rc i = 5 then
          (case nc_ps_accept_ssh_channel i l st1 of
             (l', st2) \<Rightarrow> Some (l', nc_ps_add_session l' st2))
        else Some (l, st1)
      else Some (l, emit (Usleep 100) st0))"

text \<open>The code after the loop: \<^verbatim>\<open>nc_ps_clear(np2srv.nc_ps, 1, free_ds); nc_thread_destroy();\<close>\<close>

definition process_cleanup :: "np2_state \<Rightarrow> outcome" where
  "process_cleanup st =
     (case nc_ps_clear 1 st of
        None \<Rightarrow> Fault
      | Some st1 \<Rightarrow> Done (emit Nc_thread_destroy st1))"

text \<open>
  \<^verbatim>\<open>process_loop\<close>. The second argument is the value the uninitialised local \<^verbatim>\<open>ncs\<close>
  happens to have when the thread starts.
\<close>

fun process_loop :: "poll_in list \<Rightarrow> nat option \<Rightarrow> np2_state \<Rightarrow> outcome" where
  "process_loop [] l st = More st"
| "process_loop (i # ins) l st =
     (case deliver (p_sigs i) st of
        Inl c \<Rightarrow> Exit c
      | Inr st1 \<Rightarrow>
          if control st1 = LOOP_CONTINUE then
            (case process_body i l st1 of
               None \<Rightarrow> Fault
             | Some (l', st2) \<Rightarrow> process_loop ins l' st2)
          else process_cleanup st1)"

text \<open>
  One input per evaluation of the loop condition of the accept loop in \<^verbatim>\<open>main\<close>: the
  signals delivered before it, the result of \<^verbatim>\<open>nc_accept\<close> with the session pointer
  it stores, and the answers for \<^verbatim>\<open>connect_ds\<close>.
\<close>

record accept_in =
  a_sigs :: "signal list"
  a_rc :: int
  a_ncs :: "nat option"
  a_conn :: connect_in

definition nc_accept :: "accept_in \<Rightarrow> np2_state \<Rightarrow> np2_state" where
  "nc_accept i st =
     (let st0 = emit (Nc_accept (a_rc i)) st in
      if a_rc i = 1 then
        (case a_ncs i of
           None \<Rightarrow> st0
         | Some a \<Rightarrow> st0\<lparr>nc_sessions := (nc_sessions st0)(a := Some new_session)\<rparr>)
      else st0)"

text \<open>The body of the accept loop.\<close>

definition accept_body :: "accept_in \<Rightarrow> np2_state \<Rightarrow> np2_state option" where
  "accept_body i st =
     (let st1 = nc_accept i st in
      if a_rc i = 1 then
        (case connect_ds (a_ncs i) (a_conn i) st1 of
           None \<Rightarrow> None
         | Some (r, st2) \<Rightarrow>
             if r \<noteq> 0 then nc_session_free (a_ncs i) st2
             else Some (nc_ps_add_session (a_ncs i) st2))
      else Some st1)"

fun accept_loop :: "accept_in list \<Rightarrow> np2_state \<Rightarrow> outcome" where
  "accept_loop [] st = More st"
| "accept_loop (i # ins) st =
     (case deliver (a_sigs i) st of
        Inl c \<Rightarrow> Exit c
      | Inr st1 \<Rightarrow>
          if control st1 = LOOP_CONTINUE then
            (case accept_body i st1 of
               None \<Rightarrow> Fault
             | Some st2 \<Rightarrow> accept_loop ins st2)
          else Done st1)"

subsection \<open>\<^verbatim>\<open>main\<close> from the label \<^verbatim>\<open>restart\<close>\<close>

text \<open>
  One pass of the main thread from \<^verbatim>\<open>restart:\<close> to the end of \<^verbatim>\<open>main\<close>. The body of
  \<^verbatim>\<open>server_init\<close> is library set-up; the model takes its return code and the sysrepo
  session it leaves in \<^verbatim>\<open>np2srv.sr_sess.srs\<close> as inputs, and a successful call installs an
  empty poll structure (\<^verbatim>\<open>nc_ps_new\<close>). The processing thread runs beside the main
  thread; its steps are those of \<open>process_loop\<close> and are not part of this function.
\<close>

record main_in =
  m_init :: int
  m_srs :: "nat option"
  m_accepts :: "accept_in list"
  m_sigs :: "signal list"

definition server_init :: "main_in \<Rightarrow> np2_state \<Rightarrow> int \<times> np2_state" where
  "server_init m st =
     (let st1 = emit (Server_init (m_init m)) (st\<lparr>sr_sess_srs := m_srs m\<rparr>) in
      if m_init m = 0 then (m_init m, st1\<lparr>nc_ps := []\<rparr>) else (m_init m, st1))"

text \<open>The code at the label \<^verbatim>\<open>cleanup\<close>, up to the test of \<^verbatim>\<open>control\<close>.\<close>

definition main_cleanup :: "np2_state \<Rightarrow> np2_state" where
  "main_cleanup st =
     (let st1 = (case sr_sess_srs st of Some h \<Rightarrow> emit (Sr_session_stop h) st | None \<Rightarrow> st)
      in emit Ly_ctx_destroy (emit Nc_server_destroy (emit Nc_ps_free (emit Sr_disconnect st1))))"

text \<open>
  How a pass ends: \<^verbatim>\<open>goto restart\<close> or \<^verbatim>\<open>return ret\<close>, both with the value of
  \<^verbatim>\<open>ret\<close>; or as the accept loop ended.
\<close>

datatype main_res =
    Goto_restart int np2_state
  | Return int np2_state
  | Main_exit int
  | Main_fault
  | Main_more np2_state

definition main_end :: "int \<Rightarrow> signal list \<Rightarrow> np2_state \<Rightarrow> main_res" where
  "main_end ret sigs st =
     (case deliver sigs (main_cleanup st) of
        Inl c \<Rightarrow> Main_exit c
      | Inr st1 \<Rightarrow> if control st1 = LOOP_RESTART then Goto_restart ret st1 else Return ret st1)"

definition main_pass :: "int \<Rightarrow> main_in \<Rightarrow> np2_state \<Rightarrow> main_res" where
  "main_pass ret m st =
     (case server_init m st of
        (r, st1) \<Rightarrow>
          if r \<noteq> 0 then main_end EXIT_FAILURE (m_sigs m) st1
          else
            (case accept_loop (m_accepts m) (emit Pthread_create st1) of
               Exit c \<Rightarrow> Main_exit c
             | Fault \<Rightarrow> Main_fault
             | More st2 \<Rightarrow> Main_more st2
             | Done st2 \<Rightarrow> main_end ret (m_sigs m) (emit Pthread_join st2)))"

text \<open>The restart cycle: one element of the list per pass.\<close>

fun main_from_restart :: "int \<Rightarrow> main_in list \<Rightarrow> np2_state \<Rightarrow> main_res" where
  "main_from_restart ret [] st = Main_more st"
| "main_from_restart ret (m # ms) st =
     (case main_pass ret m st of
        Goto_restart r st' \<Rightarrow> main_from_restart r ms st'
      | Return r st' \<Rightarrow> Return r st'
      | Main_exit c \<Rightarrow> Main_exit c
      | Main_fault \<Rightarrow> Main_fault
      | Main_more st' \<Rightarrow> Main_more st')"

text \<open>The state when \<^verbatim>\<open>main\<close> starts: the initial values of the globals.\<close>

definition init_state :: np2_state where
  "init_state =
     \<lparr>control = LOOP_CONTINUE, quit = 0,
      dslock = \<lparr>running = None, startup = None, candidate = None\<rparr>,
      nc_ps = [], sr_sess_srs = None,
      nc_sessions = (\<lambda>a. None), np2_heap = (\<lambda>a. None), trace = []\<rparr>"

subsection \<open>The two threads together\<close>

text \<open>
  The functions above follow one thread each. Here the main thread and the processing
  thread run on the same globals, one step at a time, in the order a schedule gives.
  A step of a thread is the evaluation of its loop condition, one loop body, or the code
  after the loop; \<^verbatim>\<open>pthread_join\<close> returns only when the processing thread has ended
  (before that the step changes nothing); a signal is a step of its own. The positions of
  the main thread: at its loop condition, inside the loop body (in \<^verbatim>\<open>nc_accept\<close>), at
  \<^verbatim>\<open>pthread_join\<close>, at the label \<^verbatim>\<open>cleanup\<close>, at the last test of \<^verbatim>\<open>control\<close>. The
  positions of the processing thread: at its loop condition, inside the loop body, at
  the code after the loop, ended. The signal lists of the inputs (\<open>a_sigs\<close>, \<open>p_sigs\<close>)
  are not used here: every signal is in the schedule.
\<close>

datatype main_pc = M_test | M_accept | M_join | M_cleanup | M_end

datatype work_pc = W_test | W_body | W_cleanup | W_end

record sys =
  shared :: np2_state
  mpc :: main_pc
  wpc :: work_pc
  w_ncs :: "nat option"

datatype action = Signal signal | Main_step accept_in | Work_step poll_in

datatype sys_res = Sys_exit int | Sys_fault | Sys sys

definition main_step :: "accept_in \<Rightarrow> sys \<Rightarrow> sys_res" where
  "main_step i s =
     (case mpc s of
        M_test \<Rightarrow>
          Sys (s\<lparr>mpc := (if control (shared s) = LOOP_CONTINUE then M_accept else M_join)\<rparr>)
      | M_accept \<Rightarrow>
          (case accept_body i (shared s) of
             None \<Rightarrow> Sys_fault
           | Some st \<Rightarrow> Sys (s\<lparr>shared := st, mpc := M_test\<rparr>))
      | M_join \<Rightarrow>
          (if wpc s = W_end then Sys (s\<lparr>shared := emit Pthread_join (shared s), mpc := M_cleanup\<rparr>)
           else Sys s)
      | M_cleanup \<Rightarrow> Sys (s\<lparr>shared := main_cleanup (shared s), mpc := M_end\<rparr>)
      | M_end \<Rightarrow> Sys s)"

definition work_step :: "poll_in \<Rightarrow> sys \<Rightarrow> sys_res" where
  "work_step i s =
     (case wpc s of
        W_test \<Rightarrow>
          Sys (s\<lparr>wpc := (if control (shared s) = LOOP_CONTINUE then W_body else W_cleanup)\<rparr>)
      | W_body \<Rightarrow>
          (case process_body i (w_ncs s) (shared s) of
             None \<Rightarrow> Sys_fault
           | Some (l, st) \<Rightarrow> Sys (s\<lparr>shared := st, wpc := W_test, w_ncs := l\<rparr>))
      | W_cleanup \<Rightarrow>
          (case process_cleanup (shared s) of
             Done st \<Rightarrow> Sys (s\<lparr>shared := st, wpc := W_end\<rparr>)
           | Exit c \<Rightarrow> Sys_exit c
           | Fault \<Rightarrow> Sys_fault
           | More st \<Rightarrow> Sys_fault)
      | W_end \<Rightarrow> Sys s)"

definition step :: "action \<Rightarrow> sys \<Rightarrow> sys_res" where
  "step act s =
     (case act of
        Signal sig \<Rightarrow>
          (case signal_handler sig (shared s) of
             Inl c \<Rightarrow> Sys_exit c
           | Inr st \<Rightarrow> Sys (s\<lparr>shared := st\<rparr>))
      | Main_step i \<Rightarrow> main_step i s
      | Work_step i \<Rightarrow> work_step i s)"

fun run :: "action list \<Rightarrow> sys \<Rightarrow> sys_res" where
  "run [] s = Sys s"
| "run (act # acts) s =
     (case step act s of
        Sys s' \<Rightarrow> run acts s'
      | Sys_exit c \<Rightarrow> Sys_exit c
      | Sys_fault \<Rightarrow> Sys_fault)"

text \<open>
  The two threads just after \<^verbatim>\<open>pthread_create\<close> in a pass of \<^verbatim>\<open>main\<close> (for a pass
  whose \<^verbatim>\<open>server_init\<close> succeeds); \<open>g\<close> is the value of the uninitialised local
  \<^verbatim>\<open>ncs\<close> of the new thread.
\<close>

definition threads_started :: "main_in \<Rightarrow> nat option \<Rightarrow> np2_state \<Rightarrow> sys" where
  "threads_started m g st =
     \<lparr>shared = emit Pthread_create (snd (server_init m st)),
      mpc = M_test, wpc = W_test, w_ncs = g\<rparr>"

subsection \<open>Well-formed session sets\<close>

text \<open>
  Notions used to state the properties. \<open>binding_of st a\<close> is the data pointer of the
  session at \<open>a\<close>; \<open>bound_ok\<close> says that \<open>a\<close> is a session whose data pointer is
  \<^verbatim>\<open>NULL\<close> or points to an allocated binding; \<open>wf_sessions\<close> says of a list of sessions
  that no session occurs twice, each is \<open>bound_ok\<close>, and no binding belongs to two of
  them; \<open>is_running\<close> reads the status of a session.
\<close>

definition binding_of :: "np2_state \<Rightarrow> nat \<Rightarrow> nat option" where
  "binding_of st a = (case nc_sessions st a of None \<Rightarrow> None | Some x \<Rightarrow> data x)"

definition bound_ok :: "np2_state \<Rightarrow> nat \<Rightarrow> bool" where
  "bound_ok st a =
     (case nc_sessions st a of
        None \<Rightarrow> False
      | Some x \<Rightarrow> (case data x of None \<Rightarrow> True | Some b \<Rightarrow> np2_heap st b \<noteq> None))"

definition bindings :: "np2_state \<Rightarrow> nat list \<Rightarrow> nat option list" where
  "bindings st as = filter (\<lambda>p. p \<noteq> None) (map (binding_of st) as)"

definition wf_sessions :: "nat list \<Rightarrow> np2_state \<Rightarrow> bool" where
  "wf_sessions as st =
     (distinct as \<and> list_all (bound_ok st) as \<and> distinct (bindings st as))"

definition is_running :: "np2_state \<Rightarrow> nat \<Rightarrow> bool" where
  "is_running st a =
     (case nc_sessions st a of None \<Rightarrow> False | Some x \<Rightarrow> status x = NC_STATUS_RUNNING)"

text \<open>
  The calls made when the session at \<open>a\<close> is closed with \<^verbatim>\<open>free_ds\<close> as callback:
  \<^verbatim>\<open>nc_session_free\<close>, and for a bound session the calls of \<^verbatim>\<open>free_ds\<close>.
\<close>

definition teardown_events :: "np2_state \<Rightarrow> nat \<Rightarrow> event list" where
  "teardown_events st a =
     Nc_session_free (Some a) #
     (case binding_of st a of
        None \<Rightarrow> []
      | Some b \<Rightarrow>
          (case np2_heap st b of
             None \<Rightarrow> []
           | Some s \<Rightarrow>
               (case srs s of Some h \<Rightarrow> [Sr_session_stop h] | None \<Rightarrow> [])
               @ [Rwlock_wrlock, Rwlock_unlock, Free b]))"

text \<open>
  The effect of \<^verbatim>\<open>np2srv_clean_dslock\<close> on the three slots alone; the locks after the
  teardown of the session at \<open>a\<close>; and the registered sessions that are no longer running
  once a poll with input \<open>i\<close> has returned.
\<close>

definition clean_slots :: "nat option \<Rightarrow> np2srv_dslock \<Rightarrow> np2srv_dslock" where
  "clean_slots p d =
     \<lparr>running = (if running d = p then None else running d),
      startup = (if startup d = p then None else startup d),
      candidate = (if candidate d = p then None else candidate d)\<rparr>"

definition released :: "np2_state \<Rightarrow> nat \<Rightarrow> np2srv_dslock \<Rightarrow> np2srv_dslock" where
  "released st a d =
     (case binding_of st a of
        None \<Rightarrow> d
      | Some b \<Rightarrow> (case np2_heap st b of None \<Rightarrow> d | Some s \<Rightarrow> clean_slots (ncs s) d))"

definition dead_after_poll :: "poll_in \<Rightarrow> np2_state \<Rightarrow> nat list" where
  "dead_after_poll i st =
     filter (\<lambda>x. \<not> is_running st x \<or> x \<in> set (p_invalid i)) (nc_ps st)"

subsection \<open>States used in the examples\<close>

text \<open>Session 1 holds the running and the candidate lock, session 2 the startup lock.\<close>

definition locks_example :: np2_state where
  "locks_example = init_state\<lparr>dslock := \<lparr>running = Some 1, startup = Some 2, candidate = Some 1\<rparr>\<rparr>"

text \<open>Session 1 is registered and bound to the binding at address 10, with sysrepo session 100.\<close>

definition bound_example :: np2_state where
  "bound_example =
     init_state\<lparr>dslock := \<lparr>running = Some 1, startup = Some 2, candidate = Some 1\<rparr>,
                nc_ps := [1],
                nc_sessions := (\<lambda>a. None)(1 := Some \<lparr>status = NC_STATUS_RUNNING, data = Some 10\<rparr>),
                np2_heap := (\<lambda>a. None)(10 := Some \<lparr>ncs = Some 1, srs = Some 100, ds = SR_DS_RUNNING,
                                          opts = SR_SESS_DEFAULT\<rparr>)\<rparr>"

text \<open>A binding for session 3 whose sysrepo session pointer is \<^verbatim>\<open>NULL\<close>.\<close>

definition closed_example :: np2_state where
  "closed_example =
     init_state\<lparr>dslock := \<lparr>running = None, startup = Some 3, candidate = None\<rparr>,
                np2_heap := (\<lambda>a. None)(30 := Some \<lparr>ncs = Some 3, srs = None, ds = SR_DS_RUNNING,
                                          opts = SR_SESS_DEFAULT\<rparr>)\<rparr>"

text \<open>Sessions 1 (bound to binding 10, holding two locks) and 2 (no binding) are registered.\<close>

definition two_sessions :: np2_state where
  "two_sessions =
     init_state\<lparr>dslock := \<lparr>running = Some 1, startup = None, candidate = Some 1\<rparr>,
                nc_ps := [1, 2],
                nc_sessions := (\<lambda>a. None)(1 := Some \<lparr>status = NC_STATUS_RUNNING, data = Some 10\<rparr>,
                                        2 := Some \<lparr>status = NC_STATUS_RUNNING, data = None\<rparr>),
                np2_heap := (\<lambda>a. None)(10 := Some \<lparr>ncs = Some 1, srs = Some 100, ds = SR_DS_RUNNING,
                                          opts = SR_SESS_DEFAULT\<rparr>)\<rparr>"

text \<open>
  Inputs of the accept loop: session 4 is accepted and \<^verbatim>\<open>sr_session_start_user\<close> fails
  with code 7, or succeeds.
\<close>

definition accept_fail_in :: accept_in where
  "accept_fail_in =
     \<lparr>a_sigs = [], a_rc = 1, a_ncs = Some 4,
      a_conn = \<lparr>c_calloc = Some 40, c_rc = 7, c_srs = Some 400\<rparr>\<rparr>"

definition accept_ok_in :: accept_in where
  "accept_ok_in =
     \<lparr>a_sigs = [], a_rc = 1, a_ncs = Some 4,
      a_conn = \<lparr>c_calloc = Some 40, c_rc = 0, c_srs = Some 400\<rparr>\<rparr>"

text \<open>
  Inputs of the processing loop: SIGTERM arrives; the poll fails, session 1 has terminated;
  the poll times out; a new SSH channel with session 7; a new SSH channel is announced but
  \<^verbatim>\<open>nc_ps_accept_ssh_channel\<close> fails.
\<close>

definition poll_exit_in :: poll_in where
  "poll_exit_in = \<lparr>p_sigs = [SIGTERM], p_rc = 0, p_invalid = [], p_chan = None\<rparr>"

definition poll_fail_in :: poll_in where
  "poll_fail_in = \<lparr>p_sigs = [], p_rc = - 1, p_invalid = [1], p_chan = None\<rparr>"

definition poll_idle_in :: poll_in where
  "poll_idle_in = \<lparr>p_sigs = [], p_rc = 0, p_invalid = [], p_chan = None\<rparr>"

definition poll_chan_in :: poll_in where
  "poll_chan_in = \<lparr>p_sigs = [], p_rc = 5, p_invalid = [], p_chan = Some 7\<rparr>"

definition poll_chan_fail_in :: poll_in where
  "poll_chan_fail_in = \<lparr>p_sigs = [], p_rc = 5, p_invalid = [], p_chan = None\<rparr>"

text \<open>
  A schedule of the two threads: the main thread enters its loop body; SIGTERM arrives; the
  processing thread leaves its loop and runs the code after it; then \<^verbatim>\<open>nc_accept\<close>
  returns session 4 to the main thread, which binds and registers it, leaves its loop,
  joins the processing thread and runs the cleanup.
\<close>

definition late_accept_schedule :: "action list" where
  "late_accept_schedule =
     [Main_step accept_ok_in, Signal SIGTERM, Work_step poll_idle_in, Work_step poll_idle_in,
      Main_step accept_ok_in, Main_step accept_ok_in, Main_step accept_ok_in,
      Main_step accept_ok_in]"

text \<open>
  Passes of \<^verbatim>\<open>main\<close>: one in which SIGTERM arrives, one in which SIGHUP arrives, and one
  in which no signal arrives and a client is waiting to be accepted.
\<close>

definition main_stop_in :: main_in where
  "main_stop_in =
     \<lparr>m_init = 0, m_srs = Some 900,
      m_accepts = [\<lparr>a_sigs = [SIGTERM], a_rc = 0, a_ncs = None,
                    a_conn = \<lparr>c_calloc = None, c_rc = 0, c_srs = None\<rparr>\<rparr>],
      m_sigs = []\<rparr>"

definition main_hup_in :: main_in where
  "main_hup_in =
     \<lparr>m_init = 0, m_srs = Some 900,
      m_accepts = [\<lparr>a_sigs = [SIGHUP], a_rc = 0, a_ncs = None,
                    a_conn = \<lparr>c_calloc = None, c_rc = 0, c_srs = None\<rparr>\<rparr>],
      m_sigs = []\<rparr>"

definition main_next_in :: main_in where
  "main_next_in = \<lparr>m_init = 0, m_srs = Some 901, m_accepts = [accept_ok_in], m_sigs = []\<rparr>"
section \<open>Properties\<close>

subsection \<open>Field-wise effect of the basic operations\<close>

lemma emit_fields [simp]:
  "trace (emit e st) = trace st @ [e]"
  "control (emit e st) = control st"
  "quit (emit e st) = quit st"
  "dslock (emit e st) = dslock st"
  "nc_ps (emit e st) = nc_ps st"
  "sr_sess_srs (emit e st) = sr_sess_srs st"
  "nc_sessions (emit e st) = nc_sessions st"
  "np2_heap (emit e st) = np2_heap st"
  by (simp_all add: emit_def)

lemma clean_dslock_slots:
  "dslock (np2srv_clean_dslock p st) =
     \<lparr>running = (if running (dslock st) = p then None else running (dslock st)),
      startup = (if startup (dslock st) = p then None else startup (dslock st)),
      candidate = (if candidate (dslock st) = p then None else candidate (dslock st))\<rparr>"
  by (simp add: np2srv_clean_dslock_def emit_def Let_def)

lemma clean_dslock_fields [simp]:
  "trace (np2srv_clean_dslock p st) = trace st @ [Rwlock_wrlock, Rwlock_unlock]"
  "control (np2srv_clean_dslock p st) = control st"
  "quit (np2srv_clean_dslock p st) = quit st"
  "nc_ps (np2srv_clean_dslock p st) = nc_ps st"
  "sr_sess_srs (np2srv_clean_dslock p st) = sr_sess_srs st"
  "nc_sessions (np2srv_clean_dslock p st) = nc_sessions st"
  "np2_heap (np2srv_clean_dslock p st) = np2_heap st"
  by (simp_all add: np2srv_clean_dslock_def emit_def Let_def)

subsection \<open>The signal handler\<close>

text \<open>
  C3. The handler is a function of the signal and of the pair (\<^verbatim>\<open>quit\<close>, \<^verbatim>\<open>control\<close>),
  defined for every signal. A termination signal (SIGINT, SIGTERM, SIGQUIT, SIGABRT) with
  \<^verbatim>\<open>quit == 0\<close> sets \<^verbatim>\<open>quit\<close> to 1 and \<^verbatim>\<open>control\<close> to \<^verbatim>\<open>LOOP_STOP\<close>; a termination
  signal with \<^verbatim>\<open>quit\<close> already set exits the process at once with \<^verbatim>\<open>EXIT_FAILURE\<close>, no
  other code of the server running after it; a restart signal (SIGHUP, SIGUSR1) sets
  \<^verbatim>\<open>control\<close> to \<^verbatim>\<open>LOOP_RESTART\<close> whatever the state was, and changes nothing else.
\<close>

theorem signal_handler_transitions:
  "(sig \<in> {SIGINT, SIGTERM, SIGQUIT, SIGABRT} \<and> quit st = 0 \<longrightarrow>
      signal_handler sig st = Inr (st\<lparr>quit := 1, control := LOOP_STOP\<rparr>))
   \<and> (sig \<in> {SIGINT, SIGTERM, SIGQUIT, SIGABRT} \<and> quit st \<noteq> 0 \<longrightarrow>
      signal_handler sig st = Inl EXIT_FAILURE)
   \<and> (sig \<in> {SIGHUP, SIGUSR1} \<longrightarrow>
      signal_handler sig st = Inr (st\<lparr>control := LOOP_RESTART\<rparr>))"
  by (auto simp: signal_handler_def)

theorem signal_handler_transitions_witness:
  "SIGTERM \<in> {SIGINT, SIGTERM, SIGQUIT, SIGABRT} \<and> quit init_state = 0
   \<and> signal_handler SIGTERM init_state = Inr (init_state\<lparr>quit := 1, control := LOOP_STOP\<rparr>)
   \<and> quit (init_state\<lparr>quit := 1, control := LOOP_STOP\<rparr>) \<noteq> 0
   \<and> signal_handler SIGTERM (init_state\<lparr>quit := 1, control := LOOP_STOP\<rparr>) = Inl EXIT_FAILURE
   \<and> SIGHUP \<in> {SIGHUP, SIGUSR1}
   \<and> signal_handler SIGHUP (init_state\<lparr>quit := 1, control := LOOP_STOP\<rparr>)
       = Inr (init_state\<lparr>quit := 1, control := LOOP_RESTART\<rparr>)"
  using signal_handler_transitions [of SIGTERM init_state]
    signal_handler_transitions [of SIGTERM "init_state\<lparr>quit := 1, control := LOOP_STOP\<rparr>"]
    signal_handler_transitions [of SIGHUP "init_state\<lparr>quit := 1, control := LOOP_STOP\<rparr>"]
  by (simp add: init_state_def)

subsection \<open>Cleaning the datastore locks\<close>

text \<open>
  C5. Whatever the three slots of \<^verbatim>\<open>dslock\<close> hold, after \<^verbatim>\<open>np2srv_clean_dslock\<close> for
  session \<open>s\<close> none of them holds \<open>s\<close>.
\<close>

theorem clean_dslock_complete:
  "running (dslock (np2srv_clean_dslock (Some s) st)) \<noteq> Some s
   \<and> startup (dslock (np2srv_clean_dslock (Some s) st)) \<noteq> Some s
   \<and> candidate (dslock (np2srv_clean_dslock (Some s) st)) \<noteq> Some s"
  by (simp add: clean_dslock_slots)

theorem clean_dslock_complete_witness:
  "dslock locks_example = \<lparr>running = Some 1, startup = Some 2, candidate = Some 1\<rparr>
   \<and> running (dslock (np2srv_clean_dslock (Some 1) locks_example)) \<noteq> Some 1
   \<and> startup (dslock (np2srv_clean_dslock (Some 1) locks_example)) \<noteq> Some 1
   \<and> candidate (dslock (np2srv_clean_dslock (Some 1) locks_example)) \<noteq> Some 1"
  using clean_dslock_complete [of 1 locks_example]
  by (simp add: locks_example_def init_state_def)

text \<open>
  C9. \<^verbatim>\<open>np2srv_clean_dslock\<close> for session \<open>s\<close> leaves every slot that does not hold \<open>s\<close>
  (unlocked, or held by another session) as it was, and a slot after the call is either
  unlocked or what it was before: the function never stores a holder.
\<close>

theorem clean_dslock_frame:
  "(running (dslock st) \<noteq> Some s \<longrightarrow>
      running (dslock (np2srv_clean_dslock (Some s) st)) = running (dslock st))
   \<and> (startup (dslock st) \<noteq> Some s \<longrightarrow>
      startup (dslock (np2srv_clean_dslock (Some s) st)) = startup (dslock st))
   \<and> (candidate (dslock st) \<noteq> Some s \<longrightarrow>
      candidate (dslock (np2srv_clean_dslock (Some s) st)) = candidate (dslock st))
   \<and> running (dslock (np2srv_clean_dslock (Some s) st)) \<in> {None, running (dslock st)}
   \<and> startup (dslock (np2srv_clean_dslock (Some s) st)) \<in> {None, startup (dslock st)}
   \<and> candidate (dslock (np2srv_clean_dslock (Some s) st)) \<in> {None, candidate (dslock st)}"
  by (simp add: clean_dslock_slots)

theorem clean_dslock_frame_witness:
  "running (dslock closed_example) \<noteq> Some 5 \<and> startup (dslock closed_example) \<noteq> Some 5
   \<and> candidate (dslock closed_example) \<noteq> Some 5
   \<and> dslock (np2srv_clean_dslock (Some 5) closed_example) = dslock closed_example
   \<and> startup (dslock locks_example) \<noteq> Some 1
   \<and> dslock (np2srv_clean_dslock (Some 1) locks_example)
       = \<lparr>running = None, startup = Some 2, candidate = None\<rparr>"
  using clean_dslock_frame [of closed_example 5] clean_dslock_frame [of locks_example 1]
  by (simp add: closed_example_def locks_example_def init_state_def clean_dslock_slots)

subsection \<open>Teardown of a binding: \<^verbatim>\<open>free_ds\<close>\<close>

text \<open>
  C6. For a binding \<open>s\<close> at address \<open>a\<close>, \<^verbatim>\<open>free_ds\<close> makes its calls in this order:
  \<^verbatim>\<open>sr_session_stop\<close> on the sysrepo session (left out when \<^verbatim>\<open>s->srs\<close> is \<^verbatim>\<open>NULL\<close>), then
  the lock cleanup (the write-lock bracket of \<^verbatim>\<open>np2srv_clean_dslock\<close>) for the session
  \<^verbatim>\<open>s->ncs\<close>, then \<^verbatim>\<open>free\<close> of the binding. Afterwards the locks are those left by
  \<^verbatim>\<open>np2srv_clean_dslock\<close> for \<^verbatim>\<open>s->ncs\<close> and the binding is gone.
\<close>

theorem free_ds_order:
  assumes "np2_heap st a = Some s"
  shows "\<exists>st'. free_ds (Some a) st = Some st'
           \<and> trace st' = trace st
               @ (case srs s of Some h \<Rightarrow> [Sr_session_stop h] | None \<Rightarrow> [])
               @ [Rwlock_wrlock, Rwlock_unlock, Free a]
           \<and> dslock st' = dslock (np2srv_clean_dslock (ncs s) st)
           \<and> np2_heap st' = (np2_heap st)(a := None)"
  using assms
  by (simp add: free_ds_def Let_def clean_dslock_slots split: option.splits)

theorem free_ds_order_witness:
  "np2_heap bound_example 10
     = Some \<lparr>ncs = Some 1, srs = Some 100, ds = SR_DS_RUNNING, opts = SR_SESS_DEFAULT\<rparr>
   \<and> (\<exists>st'. free_ds (Some 10) bound_example = Some st'
         \<and> trace st' = [Sr_session_stop 100, Rwlock_wrlock, Rwlock_unlock, Free 10]
         \<and> dslock st' = \<lparr>running = None, startup = Some 2, candidate = None\<rparr>
         \<and> np2_heap st' 10 = None)"
  using free_ds_order [of bound_example 10
      "\<lparr>ncs = Some 1, srs = Some 100, ds = SR_DS_RUNNING, opts = SR_SESS_DEFAULT\<rparr>"]
  by (auto simp add: bound_example_def init_state_def clean_dslock_slots)

text \<open>
  C10. \<^verbatim>\<open>free_ds\<close> on degenerate arguments: with a \<^verbatim>\<open>NULL\<close> pointer it returns with the
  state untouched (no call at all); with a binding whose \<^verbatim>\<open>srs\<close> is \<^verbatim>\<open>NULL\<close> it returns
  normally, having skipped \<^verbatim>\<open>sr_session_stop\<close> only: the lock cleanup and the \<^verbatim>\<open>free\<close> are
  made.
\<close>

theorem free_ds_degenerate:
  "free_ds None st = Some st
   \<and> (np2_heap st a = Some s \<and> srs s = None \<longrightarrow>
        (\<exists>st'. free_ds (Some a) st = Some st'
           \<and> trace st' = trace st @ [Rwlock_wrlock, Rwlock_unlock, Free a]
           \<and> dslock st' = dslock (np2srv_clean_dslock (ncs s) st)
           \<and> np2_heap st' a = None))"
  by (simp add: free_ds_def Let_def clean_dslock_slots)

theorem free_ds_degenerate_witness:
  "free_ds None closed_example = Some closed_example
   \<and> np2_heap closed_example 30
       = Some \<lparr>ncs = Some 3, srs = None, ds = SR_DS_RUNNING, opts = SR_SESS_DEFAULT\<rparr>
   \<and> (\<exists>st'. free_ds (Some 30) closed_example = Some st'
         \<and> trace st' = [Rwlock_wrlock, Rwlock_unlock, Free 30]
         \<and> dslock st' = \<lparr>running = None, startup = None, candidate = None\<rparr>
         \<and> np2_heap st' 30 = None)"
  using free_ds_degenerate [of closed_example 30
      "\<lparr>ncs = Some 3, srs = None, ds = SR_DS_RUNNING, opts = SR_SESS_DEFAULT\<rparr>"]
  by (auto simp add: closed_example_def init_state_def clean_dslock_slots)

subsection \<open>Closing sessions\<close>

lemma emit_binding_of [simp]: "binding_of (emit e st) = binding_of st"
  by (simp add: fun_eq_iff binding_of_def)

lemma emit_bound_ok [simp]: "bound_ok (emit e st) = bound_ok st"
  by (simp add: fun_eq_iff bound_ok_def cong: option.case_cong)

lemma emit_teardown_events [simp]: "teardown_events (emit e st) = teardown_events st"
  by (simp add: fun_eq_iff teardown_events_def cong: option.case_cong)

lemma emit_wf_sessions [simp]: "wf_sessions as (emit e st) = wf_sessions as st"
  by (simp add: wf_sessions_def bindings_def)

lemma dslock_clean: "dslock (np2srv_clean_dslock p st) = clean_slots p (dslock st)"
  by (simp add: clean_dslock_slots clean_slots_def)

lemma nc_session_free_effect:
  assumes "bound_ok st a"
  shows "\<exists>st'. nc_session_free (Some a) st = Some st'
           \<and> trace st' = trace st @ teardown_events st a
           \<and> nc_sessions st' = (nc_sessions st)(a := None)
           \<and> np2_heap st' = (\<lambda>b. if binding_of st a = Some b then None else np2_heap st b)
           \<and> nc_ps st' = nc_ps st \<and> control st' = control st \<and> quit st' = quit st
           \<and> sr_sess_srs st' = sr_sess_srs st
           \<and> dslock st' = released st a (dslock st)"
  using assms
  by (auto simp add: bound_ok_def binding_of_def teardown_events_def nc_session_free_def
      free_ds_def Let_def fun_eq_iff released_def dslock_clean split: option.splits)

lemma free_sessions_effect:
  "wf_sessions as st \<Longrightarrow>
   \<exists>st'. free_sessions as st = Some st'
     \<and> trace st' = trace st @ concat (map (teardown_events st) as)
     \<and> nc_sessions st' = (\<lambda>a. if a \<in> set as then None else nc_sessions st a)
     \<and> np2_heap st' = (\<lambda>b. if Some b \<in> binding_of st ` set as then None else np2_heap st b)
     \<and> nc_ps st' = nc_ps st \<and> control st' = control st \<and> quit st' = quit st
     \<and> sr_sess_srs st' = sr_sess_srs st
     \<and> dslock st' = fold (released st) as (dslock st)"
proof (induction as arbitrary: st)
  case Nil
  then show ?case by (simp add: fun_eq_iff)
next
  case (Cons a as)
  from Cons.prems have ok: "bound_ok st a" and da: "a \<notin> set as" and das: "distinct as"
    and oks: "list_all (bound_ok st) as"
    by (simp_all add: wf_sessions_def)
  from nc_session_free_effect [OF ok] obtain st1 where
    f: "nc_session_free (Some a) st = Some st1"
    and t: "trace st1 = trace st @ teardown_events st a"
    and s: "nc_sessions st1 = (nc_sessions st)(a := None)"
    and h: "np2_heap st1 = (\<lambda>b. if binding_of st a = Some b then None else np2_heap st b)"
    and r: "nc_ps st1 = nc_ps st" "control st1 = control st" "quit st1 = quit st"
           "sr_sess_srs st1 = sr_sess_srs st"
    and l: "dslock st1 = released st a (dslock st)"
    by blast
  have same: "binding_of st1 x = binding_of st x" if "x \<in> set as" for x
    using that da by (auto simp add: binding_of_def s)
  have inj: "binding_of st x \<noteq> binding_of st a \<or> binding_of st x = None" if "x \<in> set as" for x
  proof (cases "binding_of st a")
    case None
    then show ?thesis by (cases "binding_of st x") auto
  next
    case (Some b)
    with Cons.prems have "Some b \<notin> set (bindings st as)"
      by (simp add: wf_sessions_def bindings_def)
    then have "Some b \<notin> binding_of st ` set as"
      by (auto simp add: bindings_def)
    with that Some show ?thesis
      by (metis imageI)
  qed
  have heap_same: "np2_heap st1 b = np2_heap st b" if "x \<in> set as" "binding_of st x = Some b" for x b
    using inj [OF that(1)] that(2) by (auto simp add: h)
  have ev_same: "teardown_events st1 x = teardown_events st x" if "x \<in> set as" for x
    using same [OF that] heap_same [OF that]
    by (auto simp add: teardown_events_def split: option.splits)
  have ok1: "bound_ok st1 x" if "x \<in> set as" for x
  proof -
    from oks that have "bound_ok st x" by (simp add: list_all_iff)
    with that da heap_same [OF that] show ?thesis
      by (auto simp add: bound_ok_def s binding_of_def split: option.splits)
  qed
  have mf: "bindings st1 as = bindings st as"
    using same by (simp add: bindings_def cong: map_cong)
  have wf1: "wf_sessions as st1"
    using Cons.prems das ok1 mf
    by (cases "binding_of st a") (simp_all add: wf_sessions_def list_all_iff bindings_def)
  from Cons.IH [OF wf1] obtain st' where
    f': "free_sessions as st1 = Some st'"
    and t': "trace st' = trace st1 @ concat (map (teardown_events st1) as)"
    and s': "nc_sessions st' = (\<lambda>a. if a \<in> set as then None else nc_sessions st1 a)"
    and h': "np2_heap st' = (\<lambda>b. if Some b \<in> binding_of st1 ` set as then None else np2_heap st1 b)"
    and r': "nc_ps st' = nc_ps st1" "control st' = control st1" "quit st' = quit st1"
            "sr_sess_srs st' = sr_sess_srs st1"
    and l': "dslock st' = fold (released st1) as (dslock st1)"
    by blast
  have img: "binding_of st1 ` set as = binding_of st ` set as"
    using same by (auto simp add: image_iff)
  have evs: "map (teardown_events st1) as = map (teardown_events st) as"
    using ev_same by simp
  have rel_same: "released st1 x = released st x" if "x \<in> set as" for x
    using same [OF that] heap_same [OF that]
    by (auto simp add: released_def fun_eq_iff split: option.splits)
  have rel: "fold (released st1) as (dslock st1) = fold (released st) (a # as) (dslock st)"
    using rel_same by (simp add: l cong: fold_cong)
  show ?case
    using f f' t t' s s' h h' r r' img evs l' rel
    by (auto simp add: fun_eq_iff)
qed


lemma count_session_free:
  "count_list (concat (map (teardown_events st) as)) (Nc_session_free (Some a)) = count_list as a"
  by (induction as) (auto simp add: teardown_events_def split: option.splits)

lemma count_free:
  "list_all (bound_ok st) as \<Longrightarrow>
   count_list (concat (map (teardown_events st) as)) (Free b) = count_list (bindings st as) (Some b)"
  by (induction as)
     (auto simp add: teardown_events_def bindings_def bound_ok_def binding_of_def split: option.splits)

lemma count_distinct: "distinct xs \<Longrightarrow> x \<in> set xs \<Longrightarrow> count_list xs x = 1"
  by (induction xs) (auto simp add: count_list_0_iff)


subsection \<open>The accept loop\<close>

text \<open>
  C4. When \<^verbatim>\<open>nc_accept\<close> has returned a session and \<^verbatim>\<open>connect_ds\<close> fails for it, the
  iteration of the accept loop ends with \<^verbatim>\<open>nc_session_free\<close> on that session as its last
  call, without \<^verbatim>\<open>nc_session_set_data\<close> and without \<^verbatim>\<open>nc_ps_add_session\<close>: the
  sessions of the poll structure are the same as before, the session object is gone, the
  store of bindings is what it was before the attempt (the binding allocated by
  \<^verbatim>\<open>calloc\<close> is freed again; \<^verbatim>\<open>calloc\<close> returns memory not in use), and \<^verbatim>\<open>dslock\<close> is
  unchanged.
\<close>

theorem failed_bind_atomic:
  assumes acc: "a_rc i = 1"
    and bind: "connect_ds (a_ncs i) (a_conn i) (nc_accept i st) = Some (r, st2)"
    and fail: "r \<noteq> EXIT_SUCCESS"
    and fresh: "\<forall>b. c_calloc (a_conn i) = Some b \<longrightarrow> np2_heap st b = None"
  shows "\<exists>st' evs. accept_body i st = Some st'
           \<and> nc_ps st' = nc_ps st
           \<and> np2_heap st' = np2_heap st
           \<and> dslock st' = dslock st
           \<and> (\<forall>a. a_ncs i = Some a \<longrightarrow> nc_sessions st' a = None)
           \<and> trace st' = trace st @ evs @ [Nc_session_free (a_ncs i)]
           \<and> (\<forall>p. Nc_ps_add_session p \<notin> set evs)
           \<and> (\<forall>a b. Nc_session_set_data a b \<notin> set evs)"
  using assms
  apply (cases "a_ncs i")
   apply (simp add: accept_body_def connect_ds_def nc_accept_def nc_session_free_def Let_def
      EXIT_SUCCESS_def EXIT_FAILURE_def)
  apply (auto simp add: accept_body_def connect_ds_def nc_accept_def nc_session_free_def Let_def
      free_ds_def EXIT_SUCCESS_def EXIT_FAILURE_def new_session_def
      split: option.splits if_splits)
  done

theorem failed_bind_atomic_witness:
  "a_rc accept_fail_in = 1
   \<and> (\<exists>st2. connect_ds (a_ncs accept_fail_in) (a_conn accept_fail_in)
               (nc_accept accept_fail_in bound_example) = Some (EXIT_FAILURE, st2))
   \<and> EXIT_FAILURE \<noteq> EXIT_SUCCESS
   \<and> c_calloc (a_conn accept_fail_in) = Some 40 \<and> np2_heap bound_example 40 = None
   \<and> (\<exists>st'. accept_body accept_fail_in bound_example = Some st'
         \<and> nc_ps st' = nc_ps bound_example
         \<and> np2_heap st' = np2_heap bound_example
         \<and> dslock st' = dslock bound_example
         \<and> nc_sessions st' 4 = None
         \<and> trace st' = [Nc_accept 1, Calloc (Some 40), Sr_session_start_user 7,
                         Sr_session_stop 400, Free 40, Nc_session_free (Some 4)])"
proof -
  have 1: "a_rc accept_fail_in = 1" by (simp add: accept_fail_in_def)
  obtain st2 where 2: "connect_ds (a_ncs accept_fail_in) (a_conn accept_fail_in)
               (nc_accept accept_fail_in bound_example) = Some (EXIT_FAILURE, st2)"
    by (simp add: accept_fail_in_def connect_ds_def nc_accept_def Let_def SR_ERR_OK_def)
  have 3: "EXIT_FAILURE \<noteq> EXIT_SUCCESS" by (simp add: EXIT_FAILURE_def EXIT_SUCCESS_def)
  have 4: "\<forall>b. c_calloc (a_conn accept_fail_in) = Some b \<longrightarrow> np2_heap bound_example b = None"
    by (simp add: accept_fail_in_def bound_example_def init_state_def)
  have 5: "trace bound_example = []" by (simp add: bound_example_def init_state_def)
  have 6: "accept_body accept_fail_in bound_example \<noteq> None
     \<and> trace (the (accept_body accept_fail_in bound_example))
         = [Nc_accept 1, Calloc (Some 40), Sr_session_start_user 7,
            Sr_session_stop 400, Free 40, Nc_session_free (Some 4)]"
    by (simp add: accept_body_def accept_fail_in_def connect_ds_def nc_accept_def Let_def
        SR_ERR_OK_def EXIT_FAILURE_def nc_session_free_def new_session_def free_ds_def 5)
  from failed_bind_atomic [OF 1 2 3 4] obtain st' evs where
    r: "accept_body accept_fail_in bound_example = Some st'"
    "nc_ps st' = nc_ps bound_example" "np2_heap st' = np2_heap bound_example"
    "dslock st' = dslock bound_example"
    "\<forall>a. a_ncs accept_fail_in = Some a \<longrightarrow> nc_sessions st' a = None"
    by blast
  from r(5) have "nc_sessions st' 4 = None" by (simp add: accept_fail_in_def)
  with 1 2 3 4 6 r show ?thesis
    by (auto simp add: accept_fail_in_def bound_example_def init_state_def)
qed

text \<open>
  C8. In the accept loop a session enters the poll structure only after \<^verbatim>\<open>connect_ds\<close>
  has succeeded for it: whenever an iteration changes the sessions of the poll structure,
  it has appended the accepted session, \<^verbatim>\<open>connect_ds\<close> returned \<^verbatim>\<open>EXIT_SUCCESS\<close>, the
  calls were made in the order \<^verbatim>\<open>nc_accept\<close>, \<^verbatim>\<open>calloc\<close>, \<^verbatim>\<open>sr_session_start_user\<close>,
  \<^verbatim>\<open>nc_session_set_data\<close>, \<^verbatim>\<open>nc_ps_add_session\<close>, and the session's data pointer
  points to an allocated binding that refers back to the session.
\<close>

theorem bind_before_register:
  assumes "accept_body i st = Some st'" and "nc_ps st' \<noteq> nc_ps st"
  shows "\<exists>a b. a_ncs i = Some a \<and> c_calloc (a_conn i) = Some b
           \<and> connect_ds (a_ncs i) (a_conn i) (nc_accept i st) \<noteq> None
           \<and> fst (the (connect_ds (a_ncs i) (a_conn i) (nc_accept i st))) = EXIT_SUCCESS
           \<and> nc_ps st' = nc_ps st @ [a]
           \<and> nc_sessions st' a = Some \<lparr>status = NC_STATUS_RUNNING, data = Some b\<rparr>
           \<and> np2_heap st' b = Some \<lparr>ncs = Some a, srs = c_srs (a_conn i), ds = SR_DS_RUNNING,
                                    opts = SR_SESS_DEFAULT\<rparr>
           \<and> trace st' = trace st @ [Nc_accept 1, Calloc (Some b), Sr_session_start_user SR_ERR_OK,
                                      Nc_session_set_data a b, Nc_ps_add_session (Some a)]"
  using assms
  apply (cases "a_ncs i")
   apply (auto simp add: accept_body_def connect_ds_def nc_accept_def nc_session_free_def Let_def
      free_ds_def nc_ps_add_session_def EXIT_SUCCESS_def EXIT_FAILURE_def new_session_def
      split: option.splits if_splits)
  done

theorem bind_before_register_witness:
  "(\<exists>st'. accept_body accept_ok_in bound_example = Some st'
      \<and> nc_ps st' \<noteq> nc_ps bound_example
      \<and> nc_ps st' = [1, 4]
      \<and> nc_sessions st' 4 = Some \<lparr>status = NC_STATUS_RUNNING, data = Some 40\<rparr>
      \<and> np2_heap st' 40 = Some \<lparr>ncs = Some 4, srs = Some 400, ds = SR_DS_RUNNING,
                                  opts = SR_SESS_DEFAULT\<rparr>
      \<and> trace st' = [Nc_accept 1, Calloc (Some 40), Sr_session_start_user 0,
                      Nc_session_set_data 4 40, Nc_ps_add_session (Some 4)])"
proof -
  obtain st' where 1: "accept_body accept_ok_in bound_example = Some st'"
    by (simp add: accept_body_def accept_ok_in_def connect_ds_def nc_accept_def Let_def
        SR_ERR_OK_def EXIT_SUCCESS_def new_session_def)
  then have 2: "nc_ps st' \<noteq> nc_ps bound_example"
    by (auto simp add: accept_body_def accept_ok_in_def connect_ds_def nc_accept_def Let_def
        SR_ERR_OK_def EXIT_SUCCESS_def new_session_def nc_ps_add_session_def)
  from bind_before_register [OF 1 2] 1 2 show ?thesis
    by (auto simp add: accept_ok_in_def bound_example_def init_state_def SR_ERR_OK_def)
qed

subsection \<open>Leaving the processing loop\<close>

text \<open>
  When the processing loop finds \<^verbatim>\<open>control\<close> different from \<^verbatim>\<open>LOOP_CONTINUE\<close> and the
  poll structure is well formed, the code after the loop closes every registered session,
  each exactly once and with exactly one \<^verbatim>\<open>free\<close> of its binding, leaves the poll
  structure empty, and calls \<^verbatim>\<open>nc_thread_destroy\<close> last.
\<close>

lemma process_loop_exit_drains:
  assumes sig: "deliver (p_sigs i) st0 = Inr st"
    and stop: "control st \<noteq> LOOP_CONTINUE"
    and wf: "wf_sessions (nc_ps st) st"
  shows "\<exists>st'. process_loop (i # ins) l st0 = Done st'
           \<and> nc_ps st' = []
           \<and> trace st' = trace st @ Nc_ps_clear 1 # concat (map (teardown_events st) (nc_ps st))
                            @ [Nc_thread_destroy]
           \<and> (\<forall>a \<in> set (nc_ps st). nc_sessions st' a = None
                 \<and> count_list (trace st') (Nc_session_free (Some a))
                     = count_list (trace st) (Nc_session_free (Some a)) + 1)
           \<and> (\<forall>a \<in> set (nc_ps st). \<forall>b. binding_of st a = Some b \<longrightarrow> np2_heap st' b = None
                 \<and> count_list (trace st') (Free b) = count_list (trace st) (Free b) + 1)"
proof -
  have wf0: "wf_sessions (nc_ps (emit (Nc_ps_clear 1) st)) (emit (Nc_ps_clear 1) st)"
    using wf by simp
  from free_sessions_effect [OF wf0] obtain st1 where
    f: "free_sessions (nc_ps st) (emit (Nc_ps_clear 1) st) = Some st1"
    and t: "trace st1 = trace st @ Nc_ps_clear 1 # concat (map (teardown_events st) (nc_ps st))"
    and s: "nc_sessions st1 = (\<lambda>a. if a \<in> set (nc_ps st) then None else nc_sessions st a)"
    and h: "np2_heap st1 = (\<lambda>b. if Some b \<in> binding_of st ` set (nc_ps st) then None else np2_heap st b)"
    by (auto cong: if_cong)
  let ?st' = "emit Nc_thread_destroy (st1\<lparr>nc_ps := []\<rparr>)"
  have pl: "process_loop (i # ins) l st0 = Done ?st'"
    using sig stop f by (simp add: process_cleanup_def nc_ps_clear_def Let_def)
  have c1: "count_list (trace ?st') (Nc_session_free (Some x))
              = count_list (trace st) (Nc_session_free (Some x)) + 1" if "x \<in> set (nc_ps st)" for x
    using that wf by (simp add: t count_session_free count_distinct wf_sessions_def)
  have mem: "Some b \<in> binding_of st ` set (nc_ps st)"
    if "x \<in> set (nc_ps st)" "binding_of st x = Some b" for x b
    using that by (metis imageI)
  have c2: "count_list (trace ?st') (Free b) = count_list (trace st) (Free b) + 1"
    if "x \<in> set (nc_ps st)" "binding_of st x = Some b" for x b
  proof -
    have "Some b \<in> set (bindings st (nc_ps st))"
      using mem [OF that] by (simp add: bindings_def)
    with wf show ?thesis
      by (simp add: t count_free count_distinct wf_sessions_def)
  qed
  have h2: "np2_heap ?st' b = None" if "x \<in> set (nc_ps st)" "binding_of st x = Some b" for x b
    using mem [OF that] by (simp add: h)
  show ?thesis
    apply (rule exI [of _ ?st'])
    using pl c1 c2 h2 by (simp add: t s)
qed

subsection \<open>Removing the sessions that are no longer running\<close>

lemma bindings_distinct_iff:
  assumes "distinct as"
  shows "distinct (bindings st as) \<longleftrightarrow>
     (\<forall>x \<in> set as. \<forall>y \<in> set as.
        binding_of st x = binding_of st y \<and> binding_of st x \<noteq> None \<longrightarrow> x = y)"
proof -
  have "distinct (bindings st as)
      \<longleftrightarrow> inj_on (binding_of st) {x \<in> set as. binding_of st x \<noteq> None}"
    using assms by (simp add: bindings_def filter_map distinct_map comp_def)
  also have "\<dots> \<longleftrightarrow> (\<forall>x \<in> set as. \<forall>y \<in> set as.
        binding_of st x = binding_of st y \<and> binding_of st x \<noteq> None \<longrightarrow> x = y)"
    unfolding inj_on_def mem_Collect_eq Ball_def by metis
  finally show ?thesis .
qed

lemma wf_sessions_iff:
  "wf_sessions as st \<longleftrightarrow>
     distinct as \<and> (\<forall>a \<in> set as. bound_ok st a)
     \<and> (\<forall>x \<in> set as. \<forall>y \<in> set as.
           binding_of st x = binding_of st y \<and> binding_of st x \<noteq> None \<longrightarrow> x = y)"
  using bindings_distinct_iff [of as st]
  by (auto simp add: wf_sessions_def list_all_iff)

lemma wf_sessionsD:
  assumes "wf_sessions xs st"
  shows "distinct xs"
    and "x \<in> set xs \<Longrightarrow> bound_ok st x"
    and "x \<in> set xs \<Longrightarrow> y \<in> set xs \<Longrightarrow> binding_of st x = Some b \<Longrightarrow>
         binding_of st y = Some b \<Longrightarrow> x = y"
proof -
  from assms show "distinct xs" by (simp add: wf_sessions_def)
  from assms show "x \<in> set xs \<Longrightarrow> bound_ok st x" by (simp add: wf_sessions_def list_all_iff)
  from assms have "\<forall>x \<in> set xs. \<forall>y \<in> set xs.
           binding_of st x = binding_of st y \<and> binding_of st x \<noteq> None \<longrightarrow> x = y"
    unfolding wf_sessions_iff by blast
  then show "x \<in> set xs \<Longrightarrow> y \<in> set xs \<Longrightarrow> binding_of st x = Some b \<Longrightarrow>
         binding_of st y = Some b \<Longrightarrow> x = y"
    by (metis option.distinct(1))
qed

lemma wf_sessionsI:
  assumes "distinct xs"
    and "\<And>x. x \<in> set xs \<Longrightarrow> bound_ok st x"
    and "\<And>x y b. x \<in> set xs \<Longrightarrow> y \<in> set xs \<Longrightarrow> binding_of st x = Some b \<Longrightarrow>
         binding_of st y = Some b \<Longrightarrow> x = y"
  shows "wf_sessions xs st"
proof -
  have "\<forall>x \<in> set xs. \<forall>y \<in> set xs.
           binding_of st x = binding_of st y \<and> binding_of st x \<noteq> None \<longrightarrow> x = y"
    using assms(3) by (metis not_None_eq)
  with assms(1,2) show ?thesis unfolding wf_sessions_iff by blast
qed



lemma wf_sessions_filter:
  assumes "wf_sessions xs st"
  shows "wf_sessions (filter P xs) st"
proof (rule wf_sessionsI)
  show "distinct (filter P xs)" using wf_sessionsD(1) [OF assms] by simp
  show "bound_ok st x" if "x \<in> set (filter P xs)" for x
    using that wf_sessionsD(2) [OF assms, of x] by simp
  show "x = y" if "x \<in> set (filter P xs)" "y \<in> set (filter P xs)"
    "binding_of st x = Some b" "binding_of st y = Some b" for x y b
    using that wf_sessionsD(3) [OF assms, of x y b] by simp
qed

lemma nc_session_free_nc_ps:
  "nc_session_free p (st\<lparr>nc_ps := xs\<rparr>) = map_option (\<lambda>s. s\<lparr>nc_ps := xs\<rparr>) (nc_session_free p st)"
  by (simp add: nc_session_free_def free_ds_def np2srv_clean_dslock_def emit_def Let_def
      split: option.splits)

lemma free_sessions_nc_ps:
  "free_sessions as (st\<lparr>nc_ps := xs\<rparr>) = map_option (\<lambda>s. s\<lparr>nc_ps := xs\<rparr>) (free_sessions as st)"
  by (induction as arbitrary: st) (simp_all add: nc_session_free_nc_ps split: option.splits)

lemma nc_session_free_sessions:
  assumes "nc_session_free (Some a) st = Some st1"
  shows "nc_sessions st1 = (nc_sessions st)(a := None)" and "nc_ps st1 = nc_ps st"
  using assms
  by (auto simp add: nc_session_free_def free_ds_def Let_def split: option.splits)

lemma nc_session_free_running:
  assumes "nc_session_free (Some a) st = Some st1" and "\<not> is_running st a"
  shows "is_running st1 = is_running st"
  using assms(2) nc_session_free_sessions(1) [OF assms(1)]
  by (auto simp add: fun_eq_iff is_running_def)

lemma nc_ps_update_is_running [simp]: "is_running (st\<lparr>nc_ps := xs\<rparr>) = is_running st"
  by (simp add: fun_eq_iff is_running_def)

lemma clear_invalid_eq:
  "clear_invalid as st =
     map_option (\<lambda>s. s\<lparr>nc_ps := fold remove1 (filter (\<lambda>x. \<not> is_running st x) as) (nc_ps st)\<rparr>)
       (free_sessions (filter (\<lambda>x. \<not> is_running st x) as) st)"
proof (induction as arbitrary: st)
  case Nil
  show ?case by simp
next
  case (Cons a as)
  show ?case
  proof (cases "nc_sessions st a")
    case None
    then have "\<not> is_running st a" by (simp add: is_running_def)
    moreover have "nc_session_free (Some a) st = None"
      using None by (simp add: nc_session_free_def Let_def)
    ultimately show ?thesis using None by simp
  next
    case (Some v)
    show ?thesis
    proof (cases "status v = NC_STATUS_RUNNING")
      case True
      then have "is_running st a" using Some by (simp add: is_running_def)
      then show ?thesis using Some True Cons.IH [of st] by simp
    next
      case False
      then have nr: "\<not> is_running st a" using Some by (simp add: is_running_def)
      show ?thesis
      proof (cases "nc_session_free (Some a) st")
        case None
        then show ?thesis using Some False nr by (simp add: nc_session_free_nc_ps)
      next
        case (Some s1)
        let ?st1 = "s1\<lparr>nc_ps := remove1 a (nc_ps st)\<rparr>"
        have run: "is_running s1 = is_running st"
          by (rule nc_session_free_running [OF Some nr])
        have step: "clear_invalid (a # as) st = clear_invalid as ?st1"
          using \<open>nc_sessions st a = Some v\<close> False Some by (simp add: nc_session_free_nc_ps)
        have "clear_invalid as ?st1 =
            map_option (\<lambda>s. s\<lparr>nc_ps := fold remove1 (filter (\<lambda>x. \<not> is_running st x) as)
                                         (remove1 a (nc_ps st))\<rparr>)
              (free_sessions (filter (\<lambda>x. \<not> is_running st x) as) ?st1)"
          using Cons.IH [of ?st1] by (simp add: run)
        also have "\<dots> = map_option (\<lambda>s. s\<lparr>nc_ps := fold remove1 (filter (\<lambda>x. \<not> is_running st x) as)
                                         (remove1 a (nc_ps st))\<rparr>)
              (free_sessions (filter (\<lambda>x. \<not> is_running st x) as) s1)"
          by (simp add: free_sessions_nc_ps option.map_comp comp_def)
        finally show ?thesis using step nr Some by simp
      qed
    qed
  qed
qed

lemma fold_remove1_distinct:
  "distinct xs \<Longrightarrow> fold remove1 zs xs = filter (\<lambda>x. x \<notin> set zs) xs"
proof (induction zs arbitrary: xs)
  case Nil
  then show ?case by simp
next
  case (Cons d zs)
  have "remove1 d xs = filter (\<lambda>x. x \<noteq> d) xs"
    using Cons.prems by (simp add: distinct_remove1_removeAll removeAll_filter_not_eq) metis
  moreover have "distinct (filter (\<lambda>x. x \<noteq> d) xs)" using Cons.prems by simp
  ultimately show ?case using Cons.IH [of "filter (\<lambda>x. x \<noteq> d) xs"]
    by (simp add: conj_commute)
qed

subsection \<open>A failing poll\<close>

lemma nc_ps_poll_fields [simp]:
  "trace (nc_ps_poll i st) = trace st @ [Nc_ps_poll (p_rc i)]"
  "control (nc_ps_poll i st) = control st"
  "quit (nc_ps_poll i st) = quit st"
  "dslock (nc_ps_poll i st) = dslock st"
  "nc_ps (nc_ps_poll i st) = nc_ps st"
  "sr_sess_srs (nc_ps_poll i st) = sr_sess_srs st"
  "np2_heap (nc_ps_poll i st) = np2_heap st"
  by (simp_all add: nc_ps_poll_def)

lemma nc_ps_poll_binding_of [simp]: "binding_of (nc_ps_poll i st) = binding_of st"
  by (auto simp add: fun_eq_iff binding_of_def nc_ps_poll_def split: option.splits)

lemma nc_ps_poll_bound_ok [simp]: "bound_ok (nc_ps_poll i st) = bound_ok st"
  by (auto simp add: fun_eq_iff bound_ok_def nc_ps_poll_def split: option.splits)

lemma nc_ps_poll_wf_sessions [simp]: "wf_sessions as (nc_ps_poll i st) = wf_sessions as st"
  by (simp add: wf_sessions_def bindings_def)

lemma nc_ps_poll_teardown_events [simp]: "teardown_events (nc_ps_poll i st) = teardown_events st"
  by (simp add: fun_eq_iff teardown_events_def cong: option.case_cong)

lemma nc_ps_poll_released [simp]: "released (nc_ps_poll i st) = released st"
  by (simp add: fun_eq_iff released_def cong: option.case_cong)

lemma emit_released [simp]: "released (emit e st) = released st"
  by (simp add: fun_eq_iff released_def cong: option.case_cong)

lemma nc_ps_poll_is_running:
  "is_running (nc_ps_poll i st) x = (is_running st x \<and> x \<notin> set (p_invalid i))"
  by (auto simp add: is_running_def nc_ps_poll_def split: option.splits)

lemma emit_is_running [simp]: "is_running (emit e st) = is_running st"
  by (simp add: fun_eq_iff is_running_def)

lemma nc_ps_poll_emit_sessions [simp]:
  "nc_sessions (nc_ps_poll i (emit e st)) = nc_sessions (nc_ps_poll i st)"
  by (simp add: nc_ps_poll_def cong: if_cong)

lemma poll_clear_effect:
  assumes rc: "p_rc i = - 1 \<or> p_rc i = 3"
    and some: "nc_ps st \<noteq> []"
    and wf: "wf_sessions (nc_ps st) st"
  shows "\<exists>st2. process_body i l st = Some (l, st2)
           \<and> control st2 = control st \<and> quit st2 = quit st \<and> sr_sess_srs st2 = sr_sess_srs st
           \<and> nc_ps st2 = filter (\<lambda>x. x \<notin> set (dead_after_poll i st)) (nc_ps st)
           \<and> trace st2 = trace st @ [Nc_ps_session_count (length (nc_ps st)), Nc_ps_poll (p_rc i),
                                      Nc_ps_clear 0]
                            @ concat (map (teardown_events st) (dead_after_poll i st)) @ [Usleep 250]
           \<and> nc_sessions st2 = (\<lambda>a. if a \<in> set (dead_after_poll i st) then None
                                     else nc_sessions (nc_ps_poll i st) a)
           \<and> np2_heap st2 = (\<lambda>b. if Some b \<in> binding_of st ` set (dead_after_poll i st) then None
                                  else np2_heap st b)
           \<and> dslock st2 = fold (released st) (dead_after_poll i st) (dslock st)"
proof -
  let ?sc = "emit (Nc_ps_clear 0)
               (nc_ps_poll i (emit (Nc_ps_session_count (length (nc_ps st))) st))"
  let ?D = "dead_after_poll i st"
  have D: "filter (\<lambda>x. \<not> is_running ?sc x) (nc_ps st) = ?D"
    by (simp add: dead_after_poll_def nc_ps_poll_is_running)
  have "wf_sessions ?D st" unfolding dead_after_poll_def by (rule wf_sessions_filter [OF wf])
  then have wfD: "wf_sessions ?D ?sc" by simp
  from free_sessions_effect [OF wfD] obtain st' where
    f: "free_sessions ?D ?sc = Some st'"
    and t: "trace st' = trace ?sc @ concat (map (teardown_events ?sc) ?D)"
    and s: "nc_sessions st' = (\<lambda>a. if a \<in> set ?D then None else nc_sessions ?sc a)"
    and h: "np2_heap st' = (\<lambda>b. if Some b \<in> binding_of ?sc ` set ?D then None else np2_heap ?sc b)"
    and r: "control st' = control ?sc" "quit st' = quit ?sc" "sr_sess_srs st' = sr_sess_srs ?sc"
    and k: "dslock st' = fold (released ?sc) ?D (dslock ?sc)"
    by blast
  have d: "distinct (nc_ps st)" by (rule wf_sessionsD(1) [OF wf])
  have "clear_invalid (nc_ps st) ?sc =
          map_option (\<lambda>s. s\<lparr>nc_ps := fold remove1 ?D (nc_ps ?sc)\<rparr>) (free_sessions ?D ?sc)"
    using clear_invalid_eq [of "nc_ps st" ?sc] unfolding D .
  then have c: "clear_invalid (nc_ps st) ?sc
      = Some (st'\<lparr>nc_ps := filter (\<lambda>x. x \<notin> set ?D) (nc_ps st)\<rparr>)"
    using f d by (simp add: fold_remove1_distinct)
  let ?st2 = "emit (Usleep 250) (st'\<lparr>nc_ps := filter (\<lambda>x. x \<notin> set ?D) (nc_ps st)\<rparr>)"
  have pb: "process_body i l st = Some (l, ?st2)"
    using rc some c by (auto simp add: process_body_def nc_ps_clear_def Let_def)
  show ?thesis
    apply (rule exI [of _ ?st2])
    using pb t s h r k by (simp cong: if_cong)
qed

text \<open>
  C2, as the code has it. When \<^verbatim>\<open>nc_ps_poll\<close> returns -1 in an iteration of the
  processing loop (\<^verbatim>\<open>control\<close> is \<^verbatim>\<open>LOOP_CONTINUE\<close>, the poll structure is well formed and
  not empty), the loop is not left. The body takes the branch it shares with return code 3:
  every registered session that is no longer running is removed from the poll structure
  and closed with \<^verbatim>\<open>free_ds\<close> (the session object and its binding are gone, the calls of
  its teardown are made in the order of the poll structure, its locks are released); the
  sessions that are still running stay registered and untouched; then the thread sleeps 250
  microseconds. \<^verbatim>\<open>control\<close> and \<^verbatim>\<open>quit\<close> are unchanged, and the loop goes on with the next
  evaluation of its condition. With return code 3 instead the body ends in the same state,
  but for the code that the poll event of the trace records.
\<close>

theorem poll_failure_continues:
  assumes sig: "deliver (p_sigs i) st = Inr st1"
    and go: "control st1 = LOOP_CONTINUE"
    and some: "nc_ps st1 \<noteq> []"
    and rc: "p_rc i = - 1"
    and wf: "wf_sessions (nc_ps st1) st1"
  shows "\<exists>st2. process_body i l st1 = Some (l, st2)
           \<and> process_loop (i # ins) l st = process_loop ins l st2
           \<and> control st2 = LOOP_CONTINUE \<and> quit st2 = quit st1
           \<and> sr_sess_srs st2 = sr_sess_srs st1
           \<and> nc_ps st2 = filter (\<lambda>x. is_running st1 x \<and> x \<notin> set (p_invalid i)) (nc_ps st1)
           \<and> wf_sessions (nc_ps st2) st2
           \<and> last (trace st2) = Usleep 250
           \<and> trace st2 = trace st1
                @ [Nc_ps_session_count (length (nc_ps st1)), Nc_ps_poll (- 1), Nc_ps_clear 0]
                @ concat (map (teardown_events st1) (dead_after_poll i st1)) @ [Usleep 250]
           \<and> (\<forall>a \<in> set (dead_after_poll i st1).
                 nc_sessions st2 a = None
                 \<and> (\<forall>b. binding_of st1 a = Some b \<longrightarrow> np2_heap st2 b = None))
           \<and> (\<forall>a \<in> set (nc_ps st2).
                 nc_sessions st2 a = nc_sessions st1 a
                 \<and> (\<forall>b. binding_of st1 a = Some b \<longrightarrow> np2_heap st2 b = np2_heap st1 b))
           \<and> dslock st2 = fold (released st1) (dead_after_poll i st1) (dslock st1)
           \<and> process_body (i\<lparr>p_rc := 3\<rparr>) l st1
               = Some (l, st2\<lparr>trace := trace st1
                    @ [Nc_ps_session_count (length (nc_ps st1)), Nc_ps_poll 3, Nc_ps_clear 0]
                    @ concat (map (teardown_events st1) (dead_after_poll i st1)) @ [Usleep 250]\<rparr>)"
proof -
  let ?D = "dead_after_poll i st1"
  let ?i3 = "i\<lparr>p_rc := 3\<rparr>"
  have rc1: "p_rc i = - 1 \<or> p_rc i = 3" using rc by simp
  have rc3: "p_rc ?i3 = - 1 \<or> p_rc ?i3 = 3" by simp
  have D3: "dead_after_poll ?i3 st1 = ?D" by (simp add: dead_after_poll_def)
  have S3: "nc_sessions (nc_ps_poll ?i3 st1) = nc_sessions (nc_ps_poll i st1)"
    by (simp add: nc_ps_poll_def)
  from poll_clear_effect [OF rc1 some wf, of l] obtain st2 where
    pb: "process_body i l st1 = Some (l, st2)"
    and r: "control st2 = control st1" "quit st2 = quit st1" "sr_sess_srs st2 = sr_sess_srs st1"
    and n: "nc_ps st2 = filter (\<lambda>x. x \<notin> set ?D) (nc_ps st1)"
    and t: "trace st2 = trace st1 @ [Nc_ps_session_count (length (nc_ps st1)), Nc_ps_poll (p_rc i),
                                      Nc_ps_clear 0]
                            @ concat (map (teardown_events st1) ?D) @ [Usleep 250]"
    and s: "nc_sessions st2 = (\<lambda>a. if a \<in> set ?D then None else nc_sessions (nc_ps_poll i st1) a)"
    and h: "np2_heap st2 = (\<lambda>b. if Some b \<in> binding_of st1 ` set ?D then None else np2_heap st1 b)"
    and k: "dslock st2 = fold (released st1) ?D (dslock st1)"
    by blast
  from poll_clear_effect [OF rc3 some wf, of l] obtain st3 where
    pb3: "process_body ?i3 l st1 = Some (l, st3)"
    and r3: "control st3 = control st1" "quit st3 = quit st1" "sr_sess_srs st3 = sr_sess_srs st1"
    and n3: "nc_ps st3 = filter (\<lambda>x. x \<notin> set ?D) (nc_ps st1)"
    and t3: "trace st3 = trace st1 @ [Nc_ps_session_count (length (nc_ps st1)), Nc_ps_poll 3,
                                      Nc_ps_clear 0]
                            @ concat (map (teardown_events st1) ?D) @ [Usleep 250]"
    and s3: "nc_sessions st3 = (\<lambda>a. if a \<in> set ?D then None else nc_sessions (nc_ps_poll i st1) a)"
    and h3: "np2_heap st3 = (\<lambda>b. if Some b \<in> binding_of st1 ` set ?D then None else np2_heap st1 b)"
    and k3: "dslock st3 = fold (released st1) ?D (dslock st1)"
    unfolding D3 S3 by auto
  have like3: "st3 = st2\<lparr>trace := trace st1
                    @ [Nc_ps_session_count (length (nc_ps st1)), Nc_ps_poll 3, Nc_ps_clear 0]
                    @ concat (map (teardown_events st1) ?D) @ [Usleep 250]\<rparr>"
    by (rule np2_state.equality) (simp_all add: r r3 n n3 t3 s s3 h h3 k k3)
  have loop: "process_loop (i # ins) l st = process_loop ins l st2"
    using sig go pb by simp
  have n': "nc_ps st2 = filter (\<lambda>x. is_running st1 x \<and> x \<notin> set (p_invalid i)) (nc_ps st1)"
    unfolding n by (rule filter_cong) (auto simp add: dead_after_poll_def)
  have kept: "x \<in> set (nc_ps st1) \<and> x \<notin> set ?D \<and> x \<notin> set (p_invalid i)"
    if "x \<in> set (nc_ps st2)" for x
    using that unfolding n by (auto simp add: dead_after_poll_def)
  have kept_s: "nc_sessions st2 x = nc_sessions st1 x" if "x \<in> set (nc_ps st2)" for x
    using kept [OF that] by (simp add: s nc_ps_poll_def)
  have kept_b: "binding_of st2 x = binding_of st1 x" if "x \<in> set (nc_ps st2)" for x
    using kept_s [OF that] by (simp add: binding_of_def)
  have kept_h: "np2_heap st2 b = np2_heap st1 b"
    if x: "x \<in> set (nc_ps st2)" and b: "binding_of st1 x = Some b" for x b
  proof -
    have "Some b \<notin> binding_of st1 ` set ?D"
    proof
      assume "Some b \<in> binding_of st1 ` set ?D"
      then obtain y where y: "y \<in> set ?D" "binding_of st1 y = Some b" by auto
      then have "y \<in> set (nc_ps st1)" by (simp add: dead_after_poll_def)
      from wf_sessionsD(3) [OF wf _ this b y(2)] kept [OF x] have "x = y" by simp
      with y(1) kept [OF x] show False by simp
    qed
    then show ?thesis by (simp add: h)
  qed
  have wf2: "wf_sessions (nc_ps st2) st2"
  proof (rule wf_sessionsI)
    show "distinct (nc_ps st2)" unfolding n using wf_sessionsD(1) [OF wf] by simp
    show "bound_ok st2 x" if x: "x \<in> set (nc_ps st2)" for x
    proof -
      from kept [OF x] have xin: "x \<in> set (nc_ps st1)" by simp
      have ok1: "bound_ok st1 x" by (rule wf_sessionsD(2) [OF wf xin])
      then obtain v where v: "nc_sessions st1 x = Some v"
        by (auto simp add: bound_ok_def split: option.splits)
      show ?thesis
      proof (cases "data v")
        case None
        then show ?thesis using v kept_s [OF x] by (simp add: bound_ok_def)
      next
        case (Some b)
        then have bx: "binding_of st1 x = Some b" using v by (simp add: binding_of_def)
        have "np2_heap st1 b \<noteq> None" using ok1 v Some by (simp add: bound_ok_def)
        then have "np2_heap st2 b \<noteq> None" using kept_h [OF x bx] by simp
        then show ?thesis using v Some kept_s [OF x] by (simp add: bound_ok_def)
      qed
    qed
    show "x = y" if xy: "x \<in> set (nc_ps st2)" "y \<in> set (nc_ps st2)"
      and bb: "binding_of st2 x = Some b" "binding_of st2 y = Some b" for x y b
    proof -
      from kept [OF xy(1)] kept [OF xy(2)]
      have xin: "x \<in> set (nc_ps st1)" and yin: "y \<in> set (nc_ps st1)" by simp_all
      from bb(1) kept_b [OF xy(1)] have 1: "binding_of st1 x = Some b" by simp
      from bb(2) kept_b [OF xy(2)] have 2: "binding_of st1 y = Some b" by simp
      show ?thesis by (rule wf_sessionsD(3) [OF wf xin yin 1 2])
    qed
  qed
  have dead_s: "nc_sessions st2 a = None" if "a \<in> set ?D" for a
    using that by (simp add: s)
  have dead_h: "np2_heap st2 b = None" if "a \<in> set ?D" "binding_of st1 a = Some b" for a b
  proof -
    have "Some b \<in> binding_of st1 ` set ?D" using that by (metis imageI)
    then show ?thesis by (simp add: h)
  qed
  have t1: "trace st2 = trace st1
                @ [Nc_ps_session_count (length (nc_ps st1)), Nc_ps_poll (- 1), Nc_ps_clear 0]
                @ concat (map (teardown_events st1) ?D) @ [Usleep 250]"
    using t rc by simp
  have lst: "last (trace st2) = Usleep 250" unfolding t1 by simp
  have c: "control st2 = LOOP_CONTINUE" using r(1) go by simp
  have pb3': "process_body (i\<lparr>p_rc := 3\<rparr>) l st1
               = Some (l, st2\<lparr>trace := trace st1
                    @ [Nc_ps_session_count (length (nc_ps st1)), Nc_ps_poll 3, Nc_ps_clear 0]
                    @ concat (map (teardown_events st1) (dead_after_poll i st1)) @ [Usleep 250]\<rparr>)"
    using pb3 like3 by simp
  have Dd: "\<forall>a \<in> set (dead_after_poll i st1).
                 nc_sessions st2 a = None
                 \<and> (\<forall>b. binding_of st1 a = Some b \<longrightarrow> np2_heap st2 b = None)"
    using dead_s dead_h by blast
  have Kk: "\<forall>a \<in> set (nc_ps st2).
                 nc_sessions st2 a = nc_sessions st1 a
                 \<and> (\<forall>b. binding_of st1 a = Some b \<longrightarrow> np2_heap st2 b = np2_heap st1 b)"
    using kept_s kept_h by blast
  show ?thesis
  proof (intro exI [of _ st2] conjI)
    show "process_body i l st1 = Some (l, st2)" by (rule pb)
    show "process_loop (i # ins) l st = process_loop ins l st2" by (rule loop)
    show "control st2 = LOOP_CONTINUE" by (rule c)
    show "quit st2 = quit st1" by (rule r(2))
    show "sr_sess_srs st2 = sr_sess_srs st1" by (rule r(3))
    show "nc_ps st2 = filter (\<lambda>x. is_running st1 x \<and> x \<notin> set (p_invalid i)) (nc_ps st1)"
      by (rule n')
    show "wf_sessions (nc_ps st2) st2" by (rule wf2)
    show "last (trace st2) = Usleep 250" by (rule lst)
    show "trace st2 = trace st1
                @ [Nc_ps_session_count (length (nc_ps st1)), Nc_ps_poll (- 1), Nc_ps_clear 0]
                @ concat (map (teardown_events st1) (dead_after_poll i st1)) @ [Usleep 250]"
      by (rule t1)
    show "\<forall>a \<in> set (dead_after_poll i st1).
                 nc_sessions st2 a = None
                 \<and> (\<forall>b. binding_of st1 a = Some b \<longrightarrow> np2_heap st2 b = None)"
      by (rule Dd)
    show "\<forall>a \<in> set (nc_ps st2).
                 nc_sessions st2 a = nc_sessions st1 a
                 \<and> (\<forall>b. binding_of st1 a = Some b \<longrightarrow> np2_heap st2 b = np2_heap st1 b)"
      by (rule Kk)
    show "dslock st2 = fold (released st1) (dead_after_poll i st1) (dslock st1)" by (rule k)
    show "process_body (i\<lparr>p_rc := 3\<rparr>) l st1
               = Some (l, st2\<lparr>trace := trace st1
                    @ [Nc_ps_session_count (length (nc_ps st1)), Nc_ps_poll 3, Nc_ps_clear 0]
                    @ concat (map (teardown_events st1) (dead_after_poll i st1)) @ [Usleep 250]\<rparr>)"
      by (rule pb3')
  qed
qed

theorem poll_failure_continues_witness:
  "deliver (p_sigs poll_fail_in) two_sessions = Inr two_sessions
   \<and> control two_sessions = LOOP_CONTINUE \<and> nc_ps two_sessions \<noteq> []
   \<and> p_rc poll_fail_in = - 1 \<and> wf_sessions (nc_ps two_sessions) two_sessions
   \<and> dead_after_poll poll_fail_in two_sessions = [1]
   \<and> (\<exists>st2. process_body poll_fail_in None two_sessions = Some (None, st2)
         \<and> process_loop [poll_fail_in, poll_idle_in] None two_sessions
             = process_loop [poll_idle_in] None st2
         \<and> control st2 = LOOP_CONTINUE \<and> nc_ps st2 = [2]
         \<and> trace st2 = [Nc_ps_session_count 2, Nc_ps_poll (- 1), Nc_ps_clear 0,
                         Nc_session_free (Some 1), Sr_session_stop 100, Rwlock_wrlock,
                         Rwlock_unlock, Free 10, Usleep 250]
         \<and> nc_sessions st2 1 = None \<and> np2_heap st2 10 = None
         \<and> nc_sessions st2 2 = Some \<lparr>status = NC_STATUS_RUNNING, data = None\<rparr>
         \<and> dslock st2 = \<lparr>running = None, startup = None, candidate = None\<rparr>
         \<and> process_body (poll_fail_in\<lparr>p_rc := 3\<rparr>) None two_sessions
             = Some (None, st2\<lparr>trace := [Nc_ps_session_count 2, Nc_ps_poll 3, Nc_ps_clear 0,
                         Nc_session_free (Some 1), Sr_session_stop 100, Rwlock_wrlock,
                         Rwlock_unlock, Free 10, Usleep 250]\<rparr>))"
proof -
  have 1: "deliver (p_sigs poll_fail_in) two_sessions = Inr two_sessions"
    by (simp add: poll_fail_in_def)
  have 2: "control two_sessions = LOOP_CONTINUE" "nc_ps two_sessions \<noteq> []"
    by (simp_all add: two_sessions_def init_state_def)
  have 3: "p_rc poll_fail_in = - 1" by (simp add: poll_fail_in_def)
  have 4: "wf_sessions (nc_ps two_sessions) two_sessions"
    by (simp add: wf_sessions_def bound_ok_def bindings_def binding_of_def two_sessions_def
        init_state_def)
  have D: "dead_after_poll poll_fail_in two_sessions = [1]"
    by (simp add: dead_after_poll_def is_running_def two_sessions_def init_state_def
        poll_fail_in_def)
  have ev: "concat (map (teardown_events two_sessions) [1])
      = [Nc_session_free (Some 1), Sr_session_stop 100, Rwlock_wrlock, Rwlock_unlock, Free 10]"
    by (simp add: teardown_events_def binding_of_def two_sessions_def init_state_def)
  have fl: "filter (\<lambda>x. is_running two_sessions x \<and> x \<notin> set (p_invalid poll_fail_in))
             (nc_ps two_sessions) = [2]"
    by (simp add: is_running_def two_sessions_def init_state_def poll_fail_in_def)
  have tn: "trace two_sessions = []" "length (nc_ps two_sessions) = 2"
    by (simp_all add: two_sessions_def init_state_def)
  have rel: "fold (released two_sessions) [1] (dslock two_sessions)
      = \<lparr>running = None, startup = None, candidate = None\<rparr>"
    by (simp add: released_def clean_slots_def binding_of_def two_sessions_def init_state_def)
  have b1: "binding_of two_sessions 1 = Some 10"
    by (simp add: binding_of_def two_sessions_def init_state_def)
  have s2: "nc_sessions two_sessions 2 = Some \<lparr>status = NC_STATUS_RUNNING, data = None\<rparr>"
    by (simp add: two_sessions_def init_state_def)
  from poll_failure_continues [OF 1 2(1) 2(2) 3 4, of None "[poll_idle_in]"] obtain st2 where
    a: "process_body poll_fail_in None two_sessions = Some (None, st2)"
    "process_loop [poll_fail_in, poll_idle_in] None two_sessions
       = process_loop [poll_idle_in] None st2"
    "control st2 = LOOP_CONTINUE"
    and n: "nc_ps st2 = filter (\<lambda>x. is_running two_sessions x \<and> x \<notin> set (p_invalid poll_fail_in))
             (nc_ps two_sessions)"
    and t: "trace st2 = trace two_sessions
                @ [Nc_ps_session_count (length (nc_ps two_sessions)), Nc_ps_poll (- 1), Nc_ps_clear 0]
                @ concat (map (teardown_events two_sessions) (dead_after_poll poll_fail_in two_sessions))
                @ [Usleep 250]"
    and d: "\<forall>a \<in> set (dead_after_poll poll_fail_in two_sessions).
                 nc_sessions st2 a = None
                 \<and> (\<forall>b. binding_of two_sessions a = Some b \<longrightarrow> np2_heap st2 b = None)"
    and k: "\<forall>a \<in> set (nc_ps st2).
                 nc_sessions st2 a = nc_sessions two_sessions a
                 \<and> (\<forall>b. binding_of two_sessions a = Some b \<longrightarrow> np2_heap st2 b = np2_heap two_sessions b)"
    and l: "dslock st2 = fold (released two_sessions) (dead_after_poll poll_fail_in two_sessions)
                           (dslock two_sessions)"
    and p3: "process_body (poll_fail_in\<lparr>p_rc := 3\<rparr>) None two_sessions
               = Some (None, st2\<lparr>trace := trace two_sessions
                    @ [Nc_ps_session_count (length (nc_ps two_sessions)), Nc_ps_poll 3, Nc_ps_clear 0]
                    @ concat (map (teardown_events two_sessions)
                        (dead_after_poll poll_fail_in two_sessions)) @ [Usleep 250]\<rparr>)"
    by blast
  have n2: "nc_ps st2 = [2]" using n unfolding fl .
  have t2: "trace st2 = [Nc_ps_session_count 2, Nc_ps_poll (- 1), Nc_ps_clear 0,
                         Nc_session_free (Some 1), Sr_session_stop 100, Rwlock_wrlock,
                         Rwlock_unlock, Free 10, Usleep 250]"
    using t unfolding D ev tn by simp
  have d1: "nc_sessions st2 1 = None" using d unfolding D by simp
  have d2: "np2_heap st2 10 = None" using d b1 unfolding D by simp
  have k2: "nc_sessions st2 2 = Some \<lparr>status = NC_STATUS_RUNNING, data = None\<rparr>"
    using k s2 unfolding n2 by simp
  have l2: "dslock st2 = \<lparr>running = None, startup = None, candidate = None\<rparr>"
    using l unfolding D rel .
  have p3': "process_body (poll_fail_in\<lparr>p_rc := 3\<rparr>) None two_sessions
             = Some (None, st2\<lparr>trace := [Nc_ps_session_count 2, Nc_ps_poll 3, Nc_ps_clear 0,
                         Nc_session_free (Some 1), Sr_session_stop 100, Rwlock_wrlock,
                         Rwlock_unlock, Free 10, Usleep 250]\<rparr>)"
    using p3 unfolding D ev tn by simp
  from 1 2 3 4 D a n2 t2 d1 d2 k2 l2 p3' show ?thesis by blast
qed

text \<open>
  C2, as the claim states it, fails: with two registered sessions, of which session 1 has
  terminated, a poll that returns -1 is followed by the teardown of session 1 and then by
  another poll, and \<^verbatim>\<open>control\<close> is still \<^verbatim>\<open>LOOP_CONTINUE\<close>.
\<close>

theorem poll_failure_not_fatal:
  "(case process_loop [poll_fail_in, poll_idle_in] None two_sessions of
      More st \<Rightarrow>
        trace st = [Nc_ps_session_count 2, Nc_ps_poll (- 1), Nc_ps_clear 0,
                    Nc_session_free (Some 1), Sr_session_stop 100, Rwlock_wrlock,
                    Rwlock_unlock, Free 10, Usleep 250,
                    Nc_ps_session_count 1, Nc_ps_poll 0]
        \<and> control st = LOOP_CONTINUE \<and> nc_ps st = [2]
    | _ \<Rightarrow> False)"
  by (simp add: poll_fail_in_def poll_idle_in_def two_sessions_def init_state_def
      process_body_def nc_ps_poll_def nc_ps_clear_def nc_session_free_def free_ds_def
      np2srv_clean_dslock_def Let_def)

subsection \<open>The restart cycle\<close>

text \<open>
  The handler never stores \<^verbatim>\<open>LOOP_CONTINUE\<close>, and no other code writes \<^verbatim>\<open>control\<close>. So
  once \<^verbatim>\<open>control\<close> is not \<^verbatim>\<open>LOOP_CONTINUE\<close> both loops are left at the next evaluation of
  their conditions, and \<^verbatim>\<open>main\<close> reaches \<^verbatim>\<open>goto restart\<close> with \<^verbatim>\<open>LOOP_RESTART\<close> in it.
\<close>

lemma signal_handler_not_continue:
  "signal_handler sig st = Inr st' \<Longrightarrow> control st' \<noteq> LOOP_CONTINUE"
  by (auto simp add: signal_handler_def split: if_splits)

lemma deliver_not_continue:
  "deliver sigs st = Inr st' \<Longrightarrow> control st \<noteq> LOOP_CONTINUE \<Longrightarrow> control st' \<noteq> LOOP_CONTINUE"
proof (induction sigs arbitrary: st)
  case Nil
  then show ?case by simp
next
  case (Cons sig sigs)
  then show ?case
    by (auto split: sum.splits dest: signal_handler_not_continue)
qed

lemma loops_skipped_after_restart:
  assumes "control st \<noteq> LOOP_CONTINUE"
  shows "accept_loop (i # ins) st
           = (case deliver (a_sigs i) st of Inl c \<Rightarrow> Exit c | Inr st1 \<Rightarrow> Done st1)"
    and "process_loop (j # jns) l st
           = (case deliver (p_sigs j) st of Inl c \<Rightarrow> Exit c | Inr st1 \<Rightarrow> process_cleanup st1)"
  using assms by (auto split: sum.splits dest: deliver_not_continue)

lemma goto_restart_control:
  "main_end ret sigs st = Goto_restart r st' \<Longrightarrow> control st' = LOOP_RESTART"
  by (auto simp add: main_end_def split: sum.splits if_splits)


text \<open>
  C1 fails on the code. A SIGHUP in the first run sends \<^verbatim>\<open>main\<close> through the cleanup and
  back to \<^verbatim>\<open>restart\<close>. In the two runs that follow no signal arrives and a client is waiting
  (\<^verbatim>\<open>nc_accept\<close> would return 1), but each run consists of \<^verbatim>\<open>server_init\<close>,
  \<^verbatim>\<open>pthread_create\<close>, \<^verbatim>\<open>pthread_join\<close> and the cleanup only: \<^verbatim>\<open>nc_accept\<close> is never
  called, and \<^verbatim>\<open>control\<close> is still \<^verbatim>\<open>LOOP_RESTART\<close>. The processing thread of such a run
  goes to its cleanup without a poll.
\<close>

theorem restart_run_accepts_nothing:
  "(case main_from_restart EXIT_SUCCESS [main_hup_in, main_next_in, main_next_in] init_state of
      Main_more st \<Rightarrow>
        control st = LOOP_RESTART \<and> nc_ps st = []
        \<and> trace st =
            [Server_init 0, Pthread_create, Pthread_join, Sr_session_stop 900, Sr_disconnect,
             Nc_ps_free, Nc_server_destroy, Ly_ctx_destroy,
             Server_init 0, Pthread_create, Pthread_join, Sr_session_stop 901, Sr_disconnect,
             Nc_ps_free, Nc_server_destroy, Ly_ctx_destroy,
             Server_init 0, Pthread_create, Pthread_join, Sr_session_stop 901, Sr_disconnect,
             Nc_ps_free, Nc_server_destroy, Ly_ctx_destroy]
    | _ \<Rightarrow> False)
   \<and> (case process_loop [poll_idle_in] g (init_state\<lparr>control := LOOP_RESTART\<rparr>) of
        Done st \<Rightarrow> trace st = [Nc_ps_clear 1, Nc_thread_destroy]
      | _ \<Rightarrow> False)"
  by (simp add: main_hup_in_def main_next_in_def accept_ok_in_def poll_idle_in_def init_state_def
      main_pass_def main_end_def main_cleanup_def server_init_def signal_handler_def
      process_cleanup_def nc_ps_clear_def Let_def EXIT_SUCCESS_def)

subsection \<open>The poll structure along the loops\<close>

text \<open>
  An iteration of the accept loop keeps the poll structure well formed, provided
  \<^verbatim>\<open>nc_accept\<close> returns a session that is not registered yet and \<^verbatim>\<open>calloc\<close> returns
  memory that is not in use.
\<close>

lemma accept_body_wf:
  assumes wf: "wf_sessions (nc_ps st) st"
    and fs: "\<And>a. a_ncs i = Some a \<Longrightarrow> a \<notin> set (nc_ps st)"
    and fb: "\<And>b. c_calloc (a_conn i) = Some b \<Longrightarrow> np2_heap st b = None"
    and ab: "accept_body i st = Some st'"
  shows "wf_sessions (nc_ps st') st'"
proof (cases "a_rc i = 1 \<and> a_ncs i \<noteq> None")
  case False
  then have "\<exists>e. st' = emit e st \<or> (\<exists>e2. st' = emit e2 (emit e st))"
    using ab
    by (auto simp add: accept_body_def nc_accept_def connect_ds_def nc_session_free_def Let_def
        EXIT_FAILURE_def split: if_splits)
  then show ?thesis using wf by auto
next
  case True
  then obtain a where a: "a_ncs i = Some a" and rc: "a_rc i = 1" by auto
  have an: "a \<notin> set (nc_ps st)" by (rule fs [OF a])
  have d: "distinct (nc_ps st)" by (rule wf_sessionsD(1) [OF wf])
  have old_ok: "bound_ok st x" if "x \<in> set (nc_ps st)" for x
    by (rule wf_sessionsD(2) [OF wf that])
  have old_inj: "x = y" if "x \<in> set (nc_ps st)" "y \<in> set (nc_ps st)"
    "binding_of st x = Some b" "binding_of st y = Some b" for x y b
    by (rule wf_sessionsD(3) [OF wf that])
  have live: "np2_heap st b \<noteq> None" if "x \<in> set (nc_ps st)" "binding_of st x = Some b" for x b
    using old_ok [OF that(1)] that(2)
    by (auto simp add: bound_ok_def binding_of_def split: option.splits)
  show ?thesis
  proof (cases "c_calloc (a_conn i) \<noteq> None \<and> c_rc (a_conn i) = SR_ERR_OK")
    case False
    then have keep: "nc_ps st' = nc_ps st"
      and ss: "\<And>x. x \<noteq> a \<Longrightarrow> nc_sessions st' x = nc_sessions st x"
      and hh: "\<And>b. np2_heap st b \<noteq> None \<Longrightarrow> np2_heap st' b = np2_heap st b"
      using ab a rc fb
      by (auto simp add: accept_body_def nc_accept_def connect_ds_def nc_session_free_def Let_def
          free_ds_def new_session_def EXIT_FAILURE_def split: if_splits option.splits)
    have same: "binding_of st' x = binding_of st x" if "x \<in> set (nc_ps st)" for x
    proof -
      from that an have "x \<noteq> a" by blast
      from ss [OF this] show ?thesis by (simp add: binding_of_def)
    qed
    show ?thesis unfolding keep
    proof (rule wf_sessionsI)
      show "distinct (nc_ps st)" by (rule d)
      show "bound_ok st' x" if x: "x \<in> set (nc_ps st)" for x
      proof -
        have xa: "x \<noteq> a" using x an by auto
        from old_ok [OF x] show ?thesis
          using ss [OF xa] hh
          by (auto simp add: bound_ok_def split: option.splits)
      qed
      show "x = y" if "x \<in> set (nc_ps st)" "y \<in> set (nc_ps st)"
        "binding_of st' x = Some b" "binding_of st' y = Some b" for x y b
        using old_inj [OF that(1,2)] that(3,4) same [OF that(1)] same [OF that(2)] by simp
    qed
  next
    case True
    then obtain b where b: "c_calloc (a_conn i) = Some b" and ok: "c_rc (a_conn i) = SR_ERR_OK"
      by auto
    have bn: "np2_heap st b = None" by (rule fb [OF b])
    have reg: "nc_ps st' = nc_ps st @ [a]"
      and sa: "nc_sessions st' a = Some \<lparr>status = NC_STATUS_RUNNING, data = Some b\<rparr>"
      and ss: "\<And>x. x \<noteq> a \<Longrightarrow> nc_sessions st' x = nc_sessions st x"
      and hb: "np2_heap st' b \<noteq> None"
      and hh: "\<And>c. c \<noteq> b \<Longrightarrow> np2_heap st' c = np2_heap st c"
      using ab a rc b ok
      by (auto simp add: accept_body_def nc_accept_def connect_ds_def nc_ps_add_session_def Let_def
          new_session_def EXIT_SUCCESS_def split: if_splits option.splits)
    have ba: "binding_of st' a = Some b" using sa by (simp add: binding_of_def)
    have same: "binding_of st' x = binding_of st x" if "x \<in> set (nc_ps st)" for x
    proof -
      from that an have "x \<noteq> a" by blast
      from ss [OF this] show ?thesis by (simp add: binding_of_def)
    qed
    have other: "binding_of st x \<noteq> Some b" if "x \<in> set (nc_ps st)" for x
      using live [OF that] bn by auto
    show ?thesis unfolding reg
    proof (rule wf_sessionsI)
      show "distinct (nc_ps st @ [a])" using d an by simp
      show "bound_ok st' x" if x: "x \<in> set (nc_ps st @ [a])" for x
      proof (cases "x = a")
        case True
        then show ?thesis using sa hb by (simp add: bound_ok_def)
      next
        case False
        then have xin: "x \<in> set (nc_ps st)" using x by simp
        from old_ok [OF xin] other [OF xin] show ?thesis
          using ss [OF False] hh
          by (auto simp add: bound_ok_def binding_of_def split: option.splits)
      qed
      show "x = y" if "x \<in> set (nc_ps st @ [a])" "y \<in> set (nc_ps st @ [a])"
        "binding_of st' x = Some b'" "binding_of st' y = Some b'" for x y b'
      proof (cases "x = a"; cases "y = a")
        assume "x = a" "y = a" then show ?thesis by simp
      next
        assume xa: "x = a" and ya: "y \<noteq> a"
        then have "y \<in> set (nc_ps st)" using that(2) by simp
        from same [OF this] other [OF this] that(3,4) ba xa show ?thesis by simp
      next
        assume xa: "x \<noteq> a" and ya: "y = a"
        then have "x \<in> set (nc_ps st)" using that(1) by simp
        from same [OF this] other [OF this] that(3,4) ba ya show ?thesis by simp
      next
        assume "x \<noteq> a" "y \<noteq> a"
        then have xy: "x \<in> set (nc_ps st)" "y \<in> set (nc_ps st)" using that(1,2) by simp_all
        from old_inj [OF xy] that(3,4) same [OF xy(1)] same [OF xy(2)] show ?thesis by simp
      qed
    qed
  qed
qed


text \<open>
  The processing loop registers sessions too: for a new SSH channel (return code 5 of
  \<^verbatim>\<open>nc_ps_poll\<close>) it adds the session of the channel without a call of \<^verbatim>\<open>connect_ds\<close>,
  so this session has no binding.
\<close>

lemma secondary_channel_unbound:
  assumes "p_rc i = 5" and "nc_ps st \<noteq> []" and "p_chan i = Some a"
  shows "\<exists>st'. process_body i l st = Some (Some a, st') \<and> nc_ps st' = nc_ps st @ [a]
           \<and> binding_of st' a = None
           \<and> trace st' = trace st @ [Nc_ps_session_count (length (nc_ps st)), Nc_ps_poll 5,
                                      Nc_ps_accept_ssh_channel, Nc_ps_add_session (Some a)]"
  using assms
  by (simp add: process_body_def nc_ps_accept_ssh_channel_def nc_ps_add_session_def Let_def
      binding_of_def new_session_def)

text \<open>
  When \<^verbatim>\<open>nc_ps_accept_ssh_channel\<close> fails, the local \<^verbatim>\<open>ncs\<close> keeps the pointer of an
  earlier iteration and \<^verbatim>\<open>nc_ps_add_session\<close> registers that session a second time. The
  poll structure is then no longer well formed, and the code after the loop closes the
  session twice.
\<close>

lemma stale_channel_registered_again:
  assumes "p_rc i = 5" and "nc_ps st \<noteq> []" and "p_chan i = None"
  shows "\<exists>st'. process_body i (Some a) st = Some (Some a, st') \<and> nc_ps st' = nc_ps st @ [a]
           \<and> nc_sessions st' = nc_sessions (nc_ps_poll i st) \<and> np2_heap st' = np2_heap st
           \<and> trace st' = trace st @ [Nc_ps_session_count (length (nc_ps st)), Nc_ps_poll 5,
                                      Nc_ps_accept_ssh_channel, Nc_ps_add_session (Some a)]"
  using assms
  by (simp add: process_body_def nc_ps_accept_ssh_channel_def nc_ps_add_session_def Let_def)

lemma stale_channel_example:
  "(case process_loop [poll_chan_in, poll_chan_fail_in] g bound_example of
      More st \<Rightarrow> nc_ps st = [1, 7, 7] \<and> \<not> wf_sessions (nc_ps st) st
    | _ \<Rightarrow> False)
   \<and> process_loop [poll_chan_in, poll_chan_fail_in, poll_exit_in] g bound_example = Fault"
  by (simp add: poll_chan_in_def poll_chan_fail_in_def poll_exit_in_def bound_example_def
      init_state_def process_body_def nc_ps_poll_def nc_ps_accept_ssh_channel_def
      nc_ps_add_session_def nc_ps_clear_def nc_session_free_def free_ds_def
      np2srv_clean_dslock_def process_cleanup_def signal_handler_def new_session_def
      wf_sessions_def Let_def)

subsection \<open>A session accepted while the processing thread ends\<close>

text \<open>
  C7 fails on the code. The main thread has evaluated its loop condition and waits in
  \<^verbatim>\<open>nc_accept\<close> when SIGTERM arrives. The processing thread leaves its loop, clears the
  (empty) poll structure and ends. Then \<^verbatim>\<open>nc_accept\<close> returns session 4; the main thread
  binds it, registers it, leaves its loop, joins the processing thread and runs the
  cleanup. At the end of \<^verbatim>\<open>main\<close> session 4 is still in the poll structure with its
  binding allocated and its sysrepo session open: there is no \<^verbatim>\<open>nc_session_free\<close> for
  it, no \<^verbatim>\<open>sr_session_stop\<close> of its handle and no \<^verbatim>\<open>free\<close> of its binding.
\<close>

theorem late_session_never_torn_down:
  "(case run late_accept_schedule (threads_started main_next_in g init_state) of
      Sys s \<Rightarrow>
        mpc s = M_end \<and> wpc s = W_end
        \<and> nc_ps (shared s) = [4]
        \<and> nc_sessions (shared s) 4 = Some \<lparr>status = NC_STATUS_RUNNING, data = Some 40\<rparr>
        \<and> np2_heap (shared s) 40
            = Some \<lparr>ncs = Some 4, srs = Some 400, ds = SR_DS_RUNNING, opts = SR_SESS_DEFAULT\<rparr>
        \<and> trace (shared s) =
            [Server_init 0, Pthread_create, Nc_ps_clear 1, Nc_thread_destroy,
             Nc_accept 1, Calloc (Some 40), Sr_session_start_user 0, Nc_session_set_data 4 40,
             Nc_ps_add_session (Some 4),
             Pthread_join, Sr_session_stop 901, Sr_disconnect, Nc_ps_free, Nc_server_destroy,
             Ly_ctx_destroy]
    | _ \<Rightarrow> False)"
  by (simp add: late_accept_schedule_def threads_started_def main_next_in_def accept_ok_in_def
      poll_idle_in_def init_state_def server_init_def step_def main_step_def work_step_def
      signal_handler_def accept_body_def nc_accept_def connect_ds_def nc_ps_add_session_def
      process_cleanup_def nc_ps_clear_def main_cleanup_def new_session_def
      SR_ERR_OK_def EXIT_SUCCESS_def Let_def)

end
